theory Spec2Isabelle
  imports Complex_Main
begin

section \<open>space.js: configuration and data model\<close>

text \<open>
  JavaScript numbers are modelled as reals; the rounding of binary64 arithmetic is
  written out in \<open>rand\<close>, whose result \<open>randInt\<close> floors, and left out elsewhere.
  \<open>Math.random()\<close> is an explicit source
  \<open>rnd\<close> (the k-th call returns \<open>rnd k\<close>) with a call counter \<open>rpos\<close> in the scene.
  The canvas is modelled by the list \<open>painted\<close> of the shapes issued since the last
  background fill; gradients and colours of strokes are left out of a shape, its
  geometry and its opacity are kept.
\<close>

definition maxStars :: nat where "maxStars = 250"
definition maxMeteors :: nat where "maxMeteors = 6"
definition meteorSpawnInterval :: real where "meteorSpawnInterval = 800"
definition maxMeteorTrail :: nat where "maxMeteorTrail = 8"
definition maxParticles :: nat where "maxParticles = 180"
definition lightningChancePerSecond :: real where "lightningChancePerSecond = 6 / 10"
definition starTwinkleSpeed :: real where "starTwinkleSpeed = 25 / 10000"
definition timeScale :: real where "timeScale = 75 / 100"

datatype error = TypeError

record point =
  pt_x :: real
  pt_y :: real

record star =
  s_x :: real
  s_y :: real
  s_size :: real
  s_baseAlpha :: real
  s_twinklePhase :: real
  s_twinkleSpeed :: real

record particle =
  p_x :: real
  p_y :: real
  p_vx :: real
  p_vy :: real
  p_life :: real
  p_age :: real
  p_size :: real
  p_color :: "int \<times> int"

record meteor =
  m_x :: real
  m_y :: real
  m_vx :: real
  m_vy :: real
  m_life :: real
  m_age :: real
  m_trail :: "point list"
  m_size :: real
  m_hue :: int

record lightning =
  l_points :: "point list"
  l_age :: real
  l_life :: real
  l_alpha :: real

record gradient =
  g_x :: real
  g_y :: real
  g_r0 :: real
  g_r1 :: real

datatype drawop =
    Rect real real real real
  | Arc real real real real
  | Segment point point real real
  | Polyline "point list" real real

record scene =
  DPR :: real
  width :: real
  height :: real
  cx :: real
  cy :: real
  canvasWidth :: int
  canvasHeight :: int
  blackHoleGradient :: "gradient option"
  running :: bool
  stars :: "star list"
  particles :: "particle list"
  bigBangTime :: "real option"
  heroEl :: bool
  heroShakeUntil :: real
  heroTransform :: "(real \<times> real) option"
  meteors :: "meteor list"
  meteorPool :: "meteor list"
  lightnings :: "lightning list"
  lastTime :: real
  lastMeteorSpawn :: real
  rnd :: "nat \<Rightarrow> real"
  rpos :: nat
  painted :: "drawop list"

section \<open>Utility helpers\<close>

definition random :: "scene \<Rightarrow> real \<times> scene" where
  "random s = (rnd s (rpos s), s\<lparr>rpos := Suc (rpos s)\<rparr>)"

text \<open>
  The result of an arithmetic operation on JavaScript numbers is the exact result
  rounded to the nearest binary64 number, ties to the even significand: \<open>binade x\<close> is
  the exponent of \<open>x\<close>, \<open>ulp x\<close> the distance of neighbouring numbers there. Overflow
  and subnormal numbers are beyond the values of this program.
\<close>

definition roundEven :: "real \<Rightarrow> int" where
  "roundEven q =
     (let f = \<lfloor>q\<rfloor>
      in if q - of_int f < 1 / 2 then f
         else if q - of_int f > 1 / 2 then f + 1
         else if even f then f else f + 1)"

definition binade :: "real \<Rightarrow> int" where
  "binade x = \<lfloor>log 2 \<bar>x\<bar>\<rfloor>"

definition ulp :: "real \<Rightarrow> real" where
  "ulp x = 2 powr (of_int (binade x) - 52)"

definition double :: "real \<Rightarrow> real" where
  "double x =
     (if x = 0 then 0 else sgn x * (ulp x * of_int (roundEven (\<bar>x\<bar> / ulp x))))"

text \<open>\<open>Math.random() * (max - min) + min\<close>: a subtraction, a product and a sum.\<close>

definition rand :: "real \<Rightarrow> real \<Rightarrow> scene \<Rightarrow> real \<times> scene" where
  "rand mn mx s =
     (case random s of (r, s') \<Rightarrow> (double (double (r * double (mx - mn)) + mn), s'))"

definition randInt :: "int \<Rightarrow> int \<Rightarrow> scene \<Rightarrow> int \<times> scene" where
  "randInt mn mx s = (case rand (of_int mn) (of_int (mx + 1)) s of (v, s') \<Rightarrow> (\<lfloor>v\<rfloor>, s'))"

definition clamp :: "real \<Rightarrow> real \<Rightarrow> real \<Rightarrow> real" where
  "clamp v a b = max a (min b v)"

section \<open>Resize handling and the black hole gradient\<close>

definition createBlackHoleGradient :: "scene \<Rightarrow> gradient" where
  "createBlackHoleGradient s =
     (let r = min (width s) (height s) * (12 / 100)
      in \<lparr>g_x = cx s, g_y = cy s, g_r0 = r * (6 / 100), g_r1 = r\<rparr>)"

text \<open>
  \<open>resize\<close> reads \<open>window.devicePixelRatio\<close>, the canvas rectangle and the window's
  inner size; they are its arguments here. \<open>a || b\<close> takes \<open>b\<close> when \<open>a\<close> is 0.
\<close>

definition resize :: "real \<Rightarrow> real \<Rightarrow> real \<Rightarrow> real \<Rightarrow> real \<Rightarrow> scene \<Rightarrow> scene" where
  "resize devicePixelRatio rectW rectH innerW innerH s =
     (let dpr = max 1 (if devicePixelRatio = 0 then 1 else devicePixelRatio);
          cssW = (if rectW = 0 then innerW else rectW);
          cssH = (if rectH = 0 then innerH else rectH);
          w = max 1 (of_int \<lfloor>cssW\<rfloor>);
          h = max 1 (of_int \<lfloor>cssH\<rfloor>);
          s1 = s\<lparr>DPR := dpr, width := w, height := h,
                 canvasWidth := \<lfloor>w * dpr\<rfloor>, canvasHeight := \<lfloor>h * dpr\<rfloor>,
                 cx := w / 2, cy := h / 2\<rparr>
      in s1\<lparr>blackHoleGradient := Some (createBlackHoleGradient s1)\<rparr>)"

text \<open>The visibility handler; \<open>t\<close> is the value of \<open>performance.now()\<close>.\<close>

definition visibilitychange :: "bool \<Rightarrow> real \<Rightarrow> scene \<Rightarrow> scene" where
  "visibilitychange visible t s =
     (let s1 = s\<lparr>running := visible\<rparr>
      in if running s1 then s1\<lparr>lastTime := t\<rparr> else s1)"

section \<open>Star system\<close>

definition newStar :: "scene \<Rightarrow> star \<times> scene" where
  "newStar s =
     (case random s of (r1, s1) \<Rightarrow>
      case random s1 of (r2, s2) \<Rightarrow>
      case random s2 of (r3, s3) \<Rightarrow>
      case random s3 of (r4, s4) \<Rightarrow>
      case random s4 of (r5, s5) \<Rightarrow>
      case random s5 of (r6, s6) \<Rightarrow>
        (\<lparr>s_x = r1 * width s, s_y = r2 * height s,
          s_size = r3 * (14 / 10) + 2 / 10,
          s_baseAlpha = r4 * (8 / 10) + 2 / 10,
          s_twinklePhase = r5 * pi * 2,
          s_twinkleSpeed = (r6 * (8 / 10) + 2 / 10) * starTwinkleSpeed\<rparr>, s6))"

text \<open>The loop of \<open>initStars\<close>; the first argument is the number of iterations left.\<close>

fun initStars_loop :: "nat \<Rightarrow> scene \<Rightarrow> scene" where
  "initStars_loop 0 s = s"
| "initStars_loop (Suc n) s =
     (case newStar s of (st, s1) \<Rightarrow> initStars_loop n (s1\<lparr>stars := stars s1 @ [st]\<rparr>))"

definition initStars :: "scene \<Rightarrow> scene" where
  "initStars s = initStars_loop maxStars (s\<lparr>stars := []\<rparr>)"

section \<open>Big Bang explosion particles\<close>

definition pulseHero :: "real \<Rightarrow> scene \<Rightarrow> scene" where
  "pulseHero t s = (if \<not> heroEl s then s else s\<lparr>heroShakeUntil := t + 900\<rparr>)"

definition newBurstParticle :: "scene \<Rightarrow> particle \<times> scene" where
  "newBurstParticle s =
     (case random s of (r, s1) \<Rightarrow>
      let angle = r * pi * 2 in
      case rand 80 480 s1 of (speed, s2) \<Rightarrow>
      case rand 700 1400 s2 of (life, s3) \<Rightarrow>
      case random s3 of (r4, s4) \<Rightarrow>
      case randInt 20 60 s4 of (h, s5) \<Rightarrow>
      case randInt 50 70 s5 of (l, s6) \<Rightarrow>
        (\<lparr>p_x = cx s, p_y = cy s,
          p_vx = cos angle * speed * timeScale,
          p_vy = sin angle * speed * timeScale,
          p_life = life, p_age = 0,
          p_size = r4 * (25 / 10) + 6 / 10,
          p_color = (h, l)\<rparr>, s6))"

fun triggerBigBang_loop :: "nat \<Rightarrow> scene \<Rightarrow> scene" where
  "triggerBigBang_loop 0 s = s"
| "triggerBigBang_loop (Suc n) s =
     (case newBurstParticle s of (p, s1) \<Rightarrow>
        triggerBigBang_loop n (s1\<lparr>particles := particles s1 @ [p]\<rparr>))"

text \<open>
  \<open>triggerBigBang\<close> reads \<open>performance.now()\<close> twice: \<open>t\<close> for \<open>bigBangTime\<close>, \<open>t2\<close>
  in \<open>pulseHero\<close>. \<open>bigBangTime\<close> is \<open>None\<close> while it is \<open>-Infinity\<close>.
\<close>

definition triggerBigBang :: "real \<Rightarrow> real \<Rightarrow> scene \<Rightarrow> scene" where
  "triggerBigBang t t2 s =
     (let s1 = s\<lparr>bigBangTime := Some t, particles := []\<rparr>;
          count = min maxParticles 140
      in pulseHero t2 (triggerBigBang_loop count s1))"

section \<open>Meteor system\<close>

definition freshMeteor :: meteor where
  "freshMeteor = \<lparr>m_x = 0, m_y = 0, m_vx = 0, m_vy = 0, m_life = 0, m_age = 0,
                  m_trail = [], m_size = 2, m_hue = 40\<rparr>"

text \<open>The placement of a meteor: from above (\<open>side < 0.6\<close>) or from the left or right edge.\<close>

definition placeMeteor :: "meteor \<Rightarrow> scene \<Rightarrow> meteor \<times> scene" where
  "placeMeteor m s =
     (case random s of (side, s1) \<Rightarrow>
      if side < 6 / 10 then
        (case rand (- width s * (2 / 10)) (width s * (12 / 10)) s1 of (x, s2) \<Rightarrow>
         case rand (pi * (15 / 100)) (pi * (35 / 100)) s2 of (angle, s3) \<Rightarrow>
         case random s3 of (r, s4) \<Rightarrow>
         let dir = (if r < 1 / 2 then 1 else - 1) in
           (m\<lparr>m_x := x, m_y := - 20,
              m_vx := cos angle * 900 * dir * timeScale,
              m_vy := sin angle * 900 * timeScale\<rparr>, s4))
      else
        (case random s1 of (r, s2) \<Rightarrow>
         let topOrBottom = (r < 1 / 2) in
         if topOrBottom then
           (case rand 0 (height s) s2 of (y, s3) \<Rightarrow>
            case rand 600 1100 s3 of (vx, s4) \<Rightarrow>
            case rand (- 200) 200 s4 of (vy, s5) \<Rightarrow>
              (m\<lparr>m_x := - 30, m_y := y, m_vx := vx * timeScale, m_vy := vy * timeScale\<rparr>, s5))
         else
           (case rand 0 (height s) s2 of (y, s3) \<Rightarrow>
            case rand 600 1100 s3 of (vx, s4) \<Rightarrow>
            case rand (- 200) 200 s4 of (vy, s5) \<Rightarrow>
              (m\<lparr>m_x := width s + 30, m_y := y,
                 m_vx := - vx * timeScale, m_vy := vy * timeScale\<rparr>, s5))))"

definition createMeteor :: "scene \<Rightarrow> scene" where
  "createMeteor s =
     (if length (meteors s) \<ge> maxMeteors then s
      else
        let (m0, s0) = (if meteorPool s = [] then (freshMeteor, s)
                        else (last (meteorPool s), s\<lparr>meteorPool := butlast (meteorPool s)\<rparr>))
        in case placeMeteor m0 s0 of (m1, s1) \<Rightarrow>
           case rand 900 2200 s1 of (life, s2) \<Rightarrow>
           case rand 1 (26 / 10) s2 of (sz, s3) \<Rightarrow>
           case randInt 20 45 s3 of (hue, s4) \<Rightarrow>
           let m2 = m1\<lparr>m_life := life, m_age := 0, m_size := sz, m_hue := hue\<rparr>;
               m3 = m2\<lparr>m_trail := []\<rparr>;
               m4 = m3\<lparr>m_trail := m_trail m3 @ [\<lparr>pt_x = m_x m3, pt_y = m_y m3\<rparr>]\<rparr>
           in s4\<lparr>meteors := meteors s4 @ [m4]\<rparr>)"

section \<open>Lightning shots\<close>

text \<open>
  The loop of \<open>spawnLightning\<close>: the first argument is the number of iterations left;
  \<open>step\<close> is \<open>(endY - startY) / segments\<close>, the same in every iteration.
\<close>

fun spawnLightning_loop ::
  "nat \<Rightarrow> real \<Rightarrow> real \<Rightarrow> real \<Rightarrow> point list \<Rightarrow> scene \<Rightarrow> point list \<times> scene" where
  "spawnLightning_loop 0 step lastX lastY points s = (points, s)"
| "spawnLightning_loop (Suc n) step lastX lastY points s =
     (case rand (- 80) 80 s of (jx, s1) \<Rightarrow>
      let px = lastX + jx in
      case rand (- 20) 40 s1 of (jy, s2) \<Rightarrow>
      let py = lastY + step + jy in
        spawnLightning_loop n step px py (points @ [\<lparr>pt_x = px, pt_y = py\<rparr>]) s2)"

definition spawnLightning :: "scene \<Rightarrow> scene" where
  "spawnLightning s =
     (case rand 0 (width s) s of (startX, s1) \<Rightarrow>
      case rand 0 (height s * (2 / 10)) s1 of (startY, s2) \<Rightarrow>
      case rand (height s * (2 / 10)) (height s * (8 / 10)) s2 of (endY, s3) \<Rightarrow>
      case randInt 4 8 s3 of (segments, s4) \<Rightarrow>
      case spawnLightning_loop (nat segments) ((endY - startY) / of_int segments)
             startX startY [\<lparr>pt_x = startX, pt_y = startY\<rparr>] s4 of (points, s5) \<Rightarrow>
      case rand 120 260 s5 of (life, s6) \<Rightarrow>
      let s7 = s6\<lparr>lightnings := lightnings s6 @
                    [\<lparr>l_points = points, l_age = 0, l_life = life, l_alpha = 1\<rparr>]\<rparr>
      in if length (lightnings s7) > 6 then s7\<lparr>lightnings := tl (lightnings s7)\<rparr> else s7)"

section \<open>Draw functions\<close>

text \<open>
  A shape of \<open>painted\<close> carries its geometry and the opacity it is painted with
  (\<open>globalAlpha\<close> times the alpha of a plain fill or stroke colour; a gradient counts
  as 1), a stroke also its line width.
\<close>

definition drawBackground :: "scene \<Rightarrow> scene" where
  "drawBackground s = s\<lparr>painted := [Rect 0 0 (width s) (height s)]\<rparr>"

definition starAlpha :: "real \<Rightarrow> star \<Rightarrow> real" where
  "starAlpha t st =
     (let a = s_baseAlpha st
              + sin (t * s_twinkleSpeed st * timeScale + s_twinklePhase st) * (35 / 100)
      in clamp a (5 / 100) 1)"

definition drawStars :: "real \<Rightarrow> scene \<Rightarrow> scene" where
  "drawStars t s =
     s\<lparr>painted := painted s
          @ map (\<lambda>i. let st = stars s ! i in Arc (s_x st) (s_y st) (s_size st) (starAlpha t st))
                [0..<length (stars s)]\<rparr>"

definition drawBlackHole :: "scene \<Rightarrow> scene" where
  "drawBlackHole s =
     (let r = min (width s) (height s) * (12 / 100)
      in s\<lparr>painted := painted s @ [Arc (cx s) (cy s) r 1, Arc (cx s) (cy s) (r * (38 / 100)) (9 / 10)]\<rparr>)"

text \<open>
  The body of the loop of \<open>drawParticles\<close> at index \<open>i\<close>. The loops of the three draw
  functions run from the last index down to 0; \<open>splice(i, 1)\<close> removes index \<open>i\<close>.
  Reading a field of an entity at an index beyond the array is a \<open>TypeError\<close>.
\<close>

definition drawParticle :: "real \<Rightarrow> nat \<Rightarrow> scene \<Rightarrow> error + scene" where
  "drawParticle dt i s =
     (if i \<ge> length (particles s) then Inl TypeError
      else
        let p = particles s ! i;
            p1 = p\<lparr>p_age := p_age p + dt\<rparr>
        in if p_age p1 \<ge> p_life p1
           then Inr (s\<lparr>particles := take i (particles s) @ drop (Suc i) (particles s)\<rparr>)
           else
             let t = p_age p1 / p_life p1;
                 p2 = p1\<lparr>p_vy := p_vy p1 + 600 * (dt / 1000) * (45 / 100) * timeScale\<rparr>;
                 p3 = p2\<lparr>p_x := p_x p2 + p_vx p2 * (dt / 1000) * timeScale\<rparr>;
                 p4 = p3\<lparr>p_y := p_y p3 + p_vy p3 * (dt / 1000) * timeScale\<rparr>;
                 alpha = 1 - t
             in Inr (s\<lparr>particles := (particles s)[i := p4],
                      painted := painted s
                        @ [Arc (p_x p4) (p_y p4) (p_size p4 * (1 - t) + 3 / 10) alpha]\<rparr>))"

text \<open>\<open>drawParticles_from dt k\<close> runs the loop for the indices \<open>k - 1\<close> down to 0.\<close>

fun drawParticles_from :: "real \<Rightarrow> nat \<Rightarrow> scene \<Rightarrow> error + scene" where
  "drawParticles_from dt 0 s = Inr s"
| "drawParticles_from dt (Suc i) s =
     (case drawParticle dt i s of Inl e \<Rightarrow> Inl e | Inr s' \<Rightarrow> drawParticles_from dt i s')"

definition drawParticles :: "real \<Rightarrow> scene \<Rightarrow> error + scene" where
  "drawParticles dt s =
     (if particles s = [] then Inr s else drawParticles_from dt (length (particles s)) s)"

text \<open>
  The parts of the body of the loop of \<open>drawMeteors\<close>: the integration step, the
  trail update (reading the last trail point of an empty trail is a \<open>TypeError\<close>),
  the trail segments, the removal test.
\<close>

definition integrateMeteor :: "real \<Rightarrow> meteor \<Rightarrow> meteor" where
  "integrateMeteor dt m =
     (let m1 = m\<lparr>m_age := m_age m + dt\<rparr>;
          m2 = m1\<lparr>m_vy := m_vy m1 + 300 * (dt / 1000) * timeScale\<rparr>;
          m3 = m2\<lparr>m_x := m_x m2 + m_vx m2 * (dt / 1000) * timeScale\<rparr>
      in m3\<lparr>m_y := m_y m3 + m_vy m3 * (dt / 1000) * timeScale\<rparr>)"

definition pushTrail :: "meteor \<Rightarrow> error + meteor" where
  "pushTrail m =
     (if m_trail m = [] then Inl TypeError
      else
        let lst = last (m_trail m);
            dx = m_x m - pt_x lst;
            dy = m_y m - pt_y lst
        in if dx * dx + dy * dy > 16 then
             let m1 = m\<lparr>m_trail := m_trail m @ [\<lparr>pt_x = m_x m, pt_y = m_y m\<rparr>]\<rparr>
             in if length (m_trail m1) > maxMeteorTrail
                then Inr (m1\<lparr>m_trail := tl (m_trail m1)\<rparr>) else Inr m1
           else
             Inr (m\<lparr>m_trail := butlast (m_trail m)
                                  @ [lst\<lparr>pt_x := m_x m, pt_y := m_y m\<rparr>]\<rparr>))"

definition trailSegments :: "meteor \<Rightarrow> drawop list" where
  "trailSegments m =
     map (\<lambda>j. let p0 = m_trail m ! j;
                  p1 = m_trail m ! (j + 1);
                  alpha = (real j / real (length (m_trail m))) * (65 / 100)
              in Segment p0 p1 alpha
                   (1 + (m_size m * (1 - real j / real (length (m_trail m))) * (18 / 10))))
         [0..<length (m_trail m) - 1]"

definition meteorGone :: "scene \<Rightarrow> meteor \<Rightarrow> bool" where
  "meteorGone s m \<longleftrightarrow>
     m_age m > m_life m \<or> m_x m < - 200 \<or> m_x m > width s + 200 \<or> m_y m > height s + 200"

definition drawMeteor :: "real \<Rightarrow> nat \<Rightarrow> scene \<Rightarrow> error + scene" where
  "drawMeteor dt i s =
     (if i \<ge> length (meteors s) then Inl TypeError
      else
        case pushTrail (integrateMeteor dt (meteors s ! i)) of
          Inl e \<Rightarrow> Inl e
        | Inr m \<Rightarrow>
           (let s1 = s\<lparr>painted := painted s @ trailSegments m\<rparr> in
            case randInt 200 255 s1 of (g, s2) \<Rightarrow>
            case randInt 160 230 s2 of (b, s3) \<Rightarrow>
            let s4 = s3\<lparr>painted := painted s3
                          @ [Arc (m_x m) (m_y m) (m_size m * (22 / 10)) (95 / 100)]\<rparr>
            in if meteorGone s4 m
               then Inr (s4\<lparr>meteors := take i (meteors s4) @ drop (Suc i) (meteors s4),
                            meteorPool := meteorPool s4 @ [m]\<rparr>)
               else Inr (s4\<lparr>meteors := (meteors s4)[i := m]\<rparr>)))"

fun drawMeteors_from :: "real \<Rightarrow> nat \<Rightarrow> scene \<Rightarrow> error + scene" where
  "drawMeteors_from dt 0 s = Inr s"
| "drawMeteors_from dt (Suc i) s =
     (case drawMeteor dt i s of Inl e \<Rightarrow> Inl e | Inr s' \<Rightarrow> drawMeteors_from dt i s')"

definition drawMeteors :: "real \<Rightarrow> scene \<Rightarrow> error + scene" where
  "drawMeteors dt s =
     (if meteors s = [] then Inr s else drawMeteors_from dt (length (meteors s)) s)"

text \<open>
  The body of the loop of \<open>drawLightning\<close>; \<open>lw\<close> is the line width in force when the
  body starts (2.2 before the first bolt, 6 afterwards). Reading \<open>pts[0].x\<close> of an
  empty path is a \<open>TypeError\<close>.
\<close>

definition drawBolt :: "real \<Rightarrow> real \<Rightarrow> nat \<Rightarrow> scene \<Rightarrow> error + scene" where
  "drawBolt dt lw i s =
     (if i \<ge> length (lightnings s) then Inl TypeError
      else
        let L0 = lightnings s ! i;
            L = L0\<lparr>l_age := l_age L0 + dt\<rparr>;
            alpha = clamp (1 - l_age L / l_life L) 0 1;
            pts = l_points L
        in if pts = [] then Inl TypeError
           else
             let s1 = s\<lparr>painted := painted s
                           @ [Polyline pts alpha lw, Polyline pts (alpha * (25 / 100)) 6]\<rparr>
             in if l_age L > l_life L
                then Inr (s1\<lparr>lightnings := take i (lightnings s1) @ drop (Suc i) (lightnings s1)\<rparr>)
                else Inr (s1\<lparr>lightnings := (lightnings s1)[i := L]\<rparr>))"

fun drawLightning_from :: "real \<Rightarrow> real \<Rightarrow> nat \<Rightarrow> scene \<Rightarrow> error + scene" where
  "drawLightning_from dt lw 0 s = Inr s"
| "drawLightning_from dt lw (Suc i) s =
     (case drawBolt dt lw i s of Inl e \<Rightarrow> Inl e | Inr s' \<Rightarrow> drawLightning_from dt 6 i s')"

definition drawLightning :: "real \<Rightarrow> scene \<Rightarrow> error + scene" where
  "drawLightning dt s =
     (if lightnings s = [] then Inr s
      else drawLightning_from dt (22 / 10) (length (lightnings s)) s)"

section \<open>Main loop\<close>

definition spawnMeteorTimer :: "real \<Rightarrow> scene \<Rightarrow> scene" where
  "spawnMeteorTimer now s =
     (case rand 200 meteorSpawnInterval s of (r, s1) \<Rightarrow>
      if now - lastMeteorSpawn s > r
      then (createMeteor s1)\<lparr>lastMeteorSpawn := now\<rparr> else s1)"

definition spawnLightningChance :: "real \<Rightarrow> scene \<Rightarrow> scene" where
  "spawnLightningChance clampedDt s =
     (case random s of (r, s1) \<Rightarrow>
      if r < lightningChancePerSecond * (clampedDt / 1000) then spawnLightning s1 else s1)"

definition heroShake :: "real \<Rightarrow> scene \<Rightarrow> scene" where
  "heroShake now s =
     (if heroEl s then
        (if now < heroShakeUntil s then
           (let mag = (heroShakeUntil s - now) / 300 in
            case rand (- 3) 3 s of (rx, s1) \<Rightarrow>
            case rand (- 2) 2 s1 of (ry, s2) \<Rightarrow>
              s2\<lparr>heroTransform := Some (rx * mag, ry * mag)\<rparr>)
         else s\<lparr>heroTransform := None\<rparr>)
      else s)"

definition newFlare :: "scene \<Rightarrow> particle \<times> scene" where
  "newFlare s =
     (case rand (- 20) 20 s of (ox, s1) \<Rightarrow>
      case rand (- 20) 20 s1 of (oy, s2) \<Rightarrow>
      case rand (- 160) 160 s2 of (vx, s3) \<Rightarrow>
      case rand (- 180) 180 s3 of (vy, s4) \<Rightarrow>
      case rand 200 900 s4 of (life, s5) \<Rightarrow>
      case rand (6 / 10) (16 / 10) s5 of (sz, s6) \<Rightarrow>
      case randInt 20 50 s6 of (h, s7) \<Rightarrow>
      case randInt 60 80 s7 of (l, s8) \<Rightarrow>
        (\<lparr>p_x = cx s + ox, p_y = cy s + oy,
          p_vx = vx * timeScale, p_vy = vy * timeScale,
          p_life = life, p_age = 0, p_size = sz, p_color = (h, l)\<rparr>, s8))"

definition flare :: "real \<Rightarrow> scene \<Rightarrow> scene" where
  "flare now s =
     (case bigBangTime s of
        None \<Rightarrow> s
      | Some tb \<Rightarrow>
          if now - tb < 1200 then
            (case random s of (r, s1) \<Rightarrow>
             if r < 2 / 10 then
               (case newFlare s1 of (p, s2) \<Rightarrow>
                let s3 = s2\<lparr>particles := particles s2 @ [p]\<rparr>
                in if length (particles s3) > maxParticles
                   then s3\<lparr>particles := tl (particles s3)\<rparr> else s3)
             else s1)
          else s)"

definition loop :: "real \<Rightarrow> scene \<Rightarrow> error + scene" where
  "loop now s =
     (if \<not> running s then Inr s
      else
        let dt = now - lastTime s;
            clampedDt = min dt 48;
            s1 = s\<lparr>lastTime := now\<rparr>;
            s2 = spawnMeteorTimer now s1;
            s3 = spawnLightningChance clampedDt s2;
            s4 = heroShake now s3
        in case drawParticles clampedDt (drawBlackHole (drawStars now (drawBackground s4))) of
             Inl e \<Rightarrow> Inl e
           | Inr s5 \<Rightarrow>
               (case drawMeteors clampedDt s5 of
                  Inl e \<Rightarrow> Inl e
                | Inr s6 \<Rightarrow>
                    (case drawLightning clampedDt s6 of
                       Inl e \<Rightarrow> Inl e
                     | Inr s7 \<Rightarrow> Inr (flare now s7))))"

section \<open>Start-up and the events of a session\<close>

text \<open>
  The module-level state when the script has been loaded: \<open>r\<close> is the random source,
  \<open>hero\<close> says whether an element with id \<open>hero\<close> exists, \<open>dpr\<close> is
  \<open>window.devicePixelRatio\<close> and \<open>t0\<close> the value of \<open>performance.now()\<close>.
\<close>

definition initial :: "(nat \<Rightarrow> real) \<Rightarrow> bool \<Rightarrow> real \<Rightarrow> real \<Rightarrow> scene" where
  "initial r hero dpr t0 =
     \<lparr>DPR = max 1 (if dpr = 0 then 1 else dpr), width = 0, height = 0, cx = 0, cy = 0,
      canvasWidth = 0, canvasHeight = 0, blackHoleGradient = None, running = True,
      stars = [], particles = [], bigBangTime = None, heroEl = hero, heroShakeUntil = 0,
      heroTransform = None, meteors = [], meteorPool = [], lightnings = [],
      lastTime = t0, lastMeteorSpawn = 0, rnd = r, rpos = 0, painted = []\<rparr>"

text \<open>\<open>init\<close>; its arguments are those of \<open>resize\<close> and the time \<open>t\<close> it reads at its end.\<close>

definition init :: "real \<Rightarrow> real \<Rightarrow> real \<Rightarrow> real \<Rightarrow> real \<Rightarrow> real \<Rightarrow> scene \<Rightarrow> scene" where
  "init dpr rectW rectH innerW innerH t s =
     (let s1 = resize dpr rectW rectH innerW innerH s;
          s2 = initStars s1;
          s3 = createMeteor (createMeteor s2)
      in s3\<lparr>lastTime := t\<rparr>)"

text \<open>
  What the host page can do after \<open>init\<close>: deliver a frame, fire the timer or the manual
  trigger of the big bang, resize the window, change the visibility of the page.
\<close>

datatype event =
    Frame real
  | BigBang real real
  | Resize real real real real real
  | Visibility bool real

fun fire :: "event \<Rightarrow> scene \<Rightarrow> error + scene" where
  "fire (Frame now) s = loop now s"
| "fire (BigBang t t2) s = Inr (triggerBigBang t t2 s)"
| "fire (Resize dpr rectW rectH innerW innerH) s = Inr (resize dpr rectW rectH innerW innerH s)"
| "fire (Visibility visible t) s = Inr (visibilitychange visible t s)"

fun run :: "event list \<Rightarrow> scene \<Rightarrow> error + scene" where
  "run [] s = Inr s"
| "run (e # es) s = (case fire e s of Inl err \<Rightarrow> Inl err | Inr s' \<Rightarrow> run es s')"

section \<open>script.js: the drifting star field\<close>

text \<open>
  The second implementation keeps its own module state: surface size, stars with a
  drift velocity, the black hole radius and a frame counter.
\<close>

record drifter =
  d_x :: real
  d_y :: real
  d_r :: real
  d_alpha :: real
  d_dx :: real
  d_dy :: real

record page =
  pg_width :: real
  pg_height :: real
  pg_stars :: "drifter list"
  blackHoleRadius :: real
  timer :: int
  pg_rnd :: "nat \<Rightarrow> real"
  pg_rpos :: nat
  pg_painted :: "drawop list"

definition starCount :: nat where "starCount = 300"

definition pg_random :: "page \<Rightarrow> real \<times> page" where
  "pg_random g = (pg_rnd g (pg_rpos g), g\<lparr>pg_rpos := Suc (pg_rpos g)\<rparr>)"

definition newDrifter :: "page \<Rightarrow> drifter \<times> page" where
  "newDrifter g =
     (case pg_random g of (r1, g1) \<Rightarrow>
      case pg_random g1 of (r2, g2) \<Rightarrow>
      case pg_random g2 of (r3, g3) \<Rightarrow>
      case pg_random g3 of (r4, g4) \<Rightarrow>
      case pg_random g4 of (r5, g5) \<Rightarrow>
      case pg_random g5 of (r6, g6) \<Rightarrow>
        (\<lparr>d_x = r1 * pg_width g, d_y = r2 * pg_height g, d_r = r3 * (15 / 10),
          d_alpha = r4, d_dx = (r5 - 5 / 10) * (2 / 10), d_dy = (r6 - 5 / 10) * (2 / 10)\<rparr>, g6))"

fun pg_init_loop :: "nat \<Rightarrow> page \<Rightarrow> page" where
  "pg_init_loop 0 g = g"
| "pg_init_loop (Suc n) g =
     (case newDrifter g of (d, g1) \<Rightarrow> pg_init_loop n (g1\<lparr>pg_stars := pg_stars g1 @ [d]\<rparr>))"

text \<open>The state after the top-level statements of script.js, before the first frame.\<close>

definition pg_init :: "(nat \<Rightarrow> real) \<Rightarrow> real \<Rightarrow> real \<Rightarrow> page" where
  "pg_init r innerW innerH =
     pg_init_loop starCount
       \<lparr>pg_width = innerW, pg_height = innerH, pg_stars = [], blackHoleRadius = 50,
        timer = 0, pg_rnd = r, pg_rpos = 0, pg_painted = []\<rparr>"

definition pg_resize :: "real \<Rightarrow> real \<Rightarrow> page \<Rightarrow> page" where
  "pg_resize innerW innerH g = g\<lparr>pg_width := innerW, pg_height := innerH\<rparr>"

text \<open>The body of the loop of \<open>drawStars\<close> of script.js for the star at index \<open>i\<close>.\<close>

definition pg_drawStar :: "nat \<Rightarrow> page \<Rightarrow> page" where
  "pg_drawStar i g =
     (let d = pg_stars g ! i;
          g1 = g\<lparr>pg_painted := pg_painted g @ [Arc (d_x d) (d_y d) (d_r d) (d_alpha d)]\<rparr>;
          d1 = d\<lparr>d_x := d_x d + d_dx d\<rparr>;
          d2 = d1\<lparr>d_y := d_y d1 + d_dy d1\<rparr>;
          d3 = (if d_x d2 < 0 then d2\<lparr>d_x := pg_width g1\<rparr> else d2);
          d4 = (if d_x d3 > pg_width g1 then d3\<lparr>d_x := 0\<rparr> else d3);
          d5 = (if d_y d4 < 0 then d4\<lparr>d_y := pg_height g1\<rparr> else d4);
          d6 = (if d_y d5 > pg_height g1 then d5\<lparr>d_y := 0\<rparr> else d5)
      in case pg_random g1 of (r, g2) \<Rightarrow>
         let d7 = d6\<lparr>d_alpha := d_alpha d6 + (r - 5 / 10) * (2 / 100)\<rparr>;
             d8 = (if d_alpha d7 < 0 then d7\<lparr>d_alpha := 0\<rparr> else d7);
             d9 = (if d_alpha d8 > 1 then d8\<lparr>d_alpha := 1\<rparr> else d8)
         in g2\<lparr>pg_stars := (pg_stars g2)[i := d9]\<rparr>)"

definition pg_drawStars :: "page \<Rightarrow> page" where
  "pg_drawStars g = fold pg_drawStar [0..<length (pg_stars g)] g"

definition pg_drawBlackHole :: "page \<Rightarrow> page" where
  "pg_drawBlackHole g =
     g\<lparr>pg_painted := pg_painted g @ [Arc (pg_width g / 2) (pg_height g / 2) (blackHoleRadius g) 1]\<rparr>"

definition pg_drawExplosion :: "page \<Rightarrow> page" where
  "pg_drawExplosion g =
     g\<lparr>pg_painted := pg_painted g @ [Arc (pg_width g / 2) (pg_height g / 2) 300 1]\<rparr>"

definition animate :: "page \<Rightarrow> page" where
  "animate g =
     (let g1 = pg_drawStars (g\<lparr>pg_painted := []\<rparr>);
          g2 = g1\<lparr>timer := timer g1 + 1\<rparr>
      in if timer g2 < 300 then
           pg_drawBlackHole (g2\<lparr>blackHoleRadius := min (blackHoleRadius g2 + 5 / 10) 80\<rparr>)
         else if timer g2 \<ge> 300 \<and> timer g2 < 420 then pg_drawExplosion g2
         else if timer g2 \<ge> 420 \<and> timer g2 < 720 then
           pg_drawBlackHole (g2\<lparr>blackHoleRadius := min (blackHoleRadius g2 + 3 / 10) 100\<rparr>)
         else g2\<lparr>timer := 0, blackHoleRadius := 50\<rparr>)"

datatype pg_event = PgFrame | PgResize real real

fun pg_fire :: "pg_event \<Rightarrow> page \<Rightarrow> page" where
  "pg_fire PgFrame g = animate g"
| "pg_fire (PgResize innerW innerH) g = pg_resize innerW innerH g"

definition pg_run :: "pg_event list \<Rightarrow> page \<Rightarrow> page" where
  "pg_run es g = fold pg_fire es g"

section \<open>Notions used in the properties\<close>

text \<open>\<open>Math.random()\<close> returns a number in the half-open interval from 0 to 1.\<close>

definition unitSource :: "(nat \<Rightarrow> real) \<Rightarrow> bool" where
  "unitSource r \<longleftrightarrow> (\<forall>k. 0 \<le> r k \<and> r k < 1)"

text \<open>
  \<open>Math.random()\<close> returns a binary64 number below 1, so at most the largest of them,
  \<open>1 - 2\<^sup>-\<^sup>5\<^sup>3\<close>.
\<close>

definition doubleSource :: "(nat \<Rightarrow> real) \<Rightarrow> bool" where
  "doubleSource r \<longleftrightarrow> (\<forall>k. 0 \<le> r k \<and> r k \<le> 1 - 1 / 2 ^ 53)"

text \<open>
  The particle rules in the words of the specification: the age advances by \<open>dt\<close>, the
  particle is removed when the age has reached the life, \<open>vy\<close> grows by a constant
  acceleration scaled by \<open>dt / 1000\<close> and the time scale, the position advances by the
  velocity times \<open>dt / 1000\<close> times the time scale, opacity and size shrink linearly
  with \<open>age / life\<close>.
\<close>

definition spec_particle_removed :: "real \<Rightarrow> particle \<Rightarrow> bool" where
  "spec_particle_removed dt p \<longleftrightarrow> p_age p + dt \<ge> p_life p"

definition spec_particle_update :: "real \<Rightarrow> particle \<Rightarrow> particle" where
  "spec_particle_update dt p =
     p\<lparr>p_age := p_age p + dt,
       p_vy := p_vy p + 270 * (dt / 1000) * timeScale,
       p_x := p_x p + p_vx p * (dt / 1000) * timeScale,
       p_y := p_y p + (p_vy p + 270 * (dt / 1000) * timeScale) * (dt / 1000) * timeScale\<rparr>"

definition spec_particle_arc :: "particle \<Rightarrow> drawop" where
  "spec_particle_arc p =
     Arc (p_x p) (p_y p) (p_size p * (1 - p_age p / p_life p) + 3 / 10) (1 - p_age p / p_life p)"

text \<open>One frame of a meteor and of a lightning bolt, for a meteor with a primed trail.\<close>

definition advanceMeteor :: "real \<Rightarrow> meteor \<Rightarrow> meteor" where
  "advanceMeteor dt m =
     (case pushTrail (integrateMeteor dt m) of Inr m' \<Rightarrow> m' | Inl e \<Rightarrow> integrateMeteor dt m)"

definition ageBolt :: "real \<Rightarrow> lightning \<Rightarrow> lightning" where
  "ageBolt dt L = L\<lparr>l_age := l_age L + dt\<rparr>"

text \<open>The shapes painted for one meteor and for one bolt.\<close>

definition headOps :: "meteor \<Rightarrow> drawop list" where
  "headOps m = trailSegments m @ [Arc (m_x m) (m_y m) (m_size m * (22 / 10)) (95 / 100)]"

definition boltOps :: "real \<Rightarrow> lightning \<Rightarrow> drawop list" where
  "boltOps lw L =
     (let alpha = clamp (1 - l_age L / l_life L) 0 1
      in [Polyline (l_points L) alpha lw, Polyline (l_points L) (alpha * (25 / 100)) 6])"

text \<open>The value of \<open>rand(mn, mx)\<close> when \<open>Math.random()\<close> returns \<open>u\<close>.\<close>

definition scaled :: "real \<Rightarrow> real \<Rightarrow> real \<Rightarrow> real" where
  "scaled u mn mx = double (double (u * double (mx - mn)) + mn)"

text \<open>
  What a spawn leaves behind, in terms of the random source \<open>r\<close>: a meteor with its
  trail primed at its position, a bolt whose path has one point more than its number
  of segments, a flare particle; each with age 0 and the life drawn for it.
\<close>

definition meteorSpawn :: "(nat \<Rightarrow> real) \<Rightarrow> meteor \<Rightarrow> bool" where
  "meteorSpawn r m \<longleftrightarrow>
     m_trail m = [\<lparr>pt_x = m_x m, pt_y = m_y m\<rparr>] \<and> m_age m = 0 \<and>
     (\<exists>j. m_life m = scaled (r j) 900 2200)"

definition boltSpawn :: "(nat \<Rightarrow> real) \<Rightarrow> lightning \<Rightarrow> bool" where
  "boltSpawn r L \<longleftrightarrow>
     l_age L = 0 \<and> (\<exists>j. l_life L = scaled (r j) 120 260) \<and>
     (\<exists>j. length (l_points L) = nat \<lfloor>scaled (r j) 4 9\<rfloor> + 1)"

definition flareSpawn :: "(nat \<Rightarrow> real) \<Rightarrow> particle \<Rightarrow> bool" where
  "flareSpawn r p \<longleftrightarrow> p_age p = 0 \<and> (\<exists>j. p_life p = scaled (r j) 200 900)"

definition jagged :: "scene \<Rightarrow> bool" where
  "jagged s \<longleftrightarrow>
     list_all (\<lambda>L. 5 \<le> length (l_points L) \<and> length (l_points L) \<le> 10) (lightnings s)"


text \<open>
  The trail rule in the words of the specification: a point is appended when the
  squared distance of the position \<open>p\<close> from the last trail point exceeds 16, the oldest
  point going when the trail is over its cap; otherwise the last point is moved to \<open>p\<close>.
  \<open>spec_meteor_update\<close> is the frame of a meteor with this rule for its trail.
\<close>

definition spec_trail :: "point list \<Rightarrow> point \<Rightarrow> point list" where
  "spec_trail tr p =
     (let dx = pt_x p - pt_x (last tr);
          dy = pt_y p - pt_y (last tr)
      in if dx * dx + dy * dy > 16
         then (if length tr + 1 > maxMeteorTrail then tl (tr @ [p]) else tr @ [p])
         else butlast tr @ [p])"

definition spec_meteor_update :: "real \<Rightarrow> meteor \<Rightarrow> meteor" where
  "spec_meteor_update dt m =
     (let m' = integrateMeteor dt m
      in m'\<lparr>m_trail := spec_trail (m_trail m) \<lparr>pt_x = m_x m', pt_y = m_y m'\<rparr>\<rparr>)"



text \<open>
  Two scenes are \<open>alike\<close> when they agree on all the simulation reads: the random source
  and the position in it, the size and centre of the surface, the switches and clocks,
  and every entity. They may differ in the pixel ratio, the size of the canvas, the
  gradient, the transform of the hero element and the shapes painted.
\<close>

definition alike :: "scene \<Rightarrow> scene \<Rightarrow> bool" where
  "alike s s' \<longleftrightarrow>
     rnd s = rnd s' \<and> rpos s = rpos s' \<and>
     width s = width s' \<and> height s = height s' \<and> cx s = cx s' \<and> cy s = cy s' \<and>
     running s = running s' \<and> lastTime s = lastTime s' \<and>
     lastMeteorSpawn s = lastMeteorSpawn s' \<and> bigBangTime s = bigBangTime s' \<and>
     heroEl s = heroEl s' \<and> heroShakeUntil s = heroShakeUntil s' \<and>
     stars s = stars s' \<and> particles s = particles s' \<and> meteors s = meteors s' \<and>
     meteorPool s = meteorPool s' \<and> lightnings s = lightnings s'"

text \<open>The opacity a shape is painted with.\<close>

fun opacity :: "drawop \<Rightarrow> real" where
  "opacity (Rect x y w h) = 1"
| "opacity (Arc x y r a) = a"
| "opacity (Segment p q a w) = a"
| "opacity (Polyline ps a w) = a"

text \<open>
  What one frame of script.js does to a star on a surface of width \<open>w\<close> and height \<open>h\<close>
  when \<open>Math.random()\<close> returns \<open>r\<close>: drift, wrap at the edges, twinkle, clamp.
\<close>

definition driftStar :: "real \<Rightarrow> real \<Rightarrow> real \<Rightarrow> drifter \<Rightarrow> drifter" where
  "driftStar w h r d =
     (let x1 = d_x d + d_dx d;
          y1 = d_y d + d_dy d;
          x2 = (if x1 < 0 then w else x1);
          x3 = (if x2 > w then 0 else x2);
          y2 = (if y1 < 0 then h else y1);
          y3 = (if y2 > h then 0 else y2);
          a1 = d_alpha d + (r - 5 / 10) * (2 / 100);
          a2 = (if a1 < 0 then 0 else a1);
          a3 = (if a2 > 1 then 1 else a2)
      in d\<lparr>d_x := x3, d_y := y3, d_alpha := a3\<rparr>)"

text \<open>
  The invariant of a session: the capacity ceilings, and every trail and every
  lightning path holds a point.
\<close>

definition steady :: "scene \<Rightarrow> bool" where
  "steady s \<longleftrightarrow>
     length (stars s) = maxStars \<and>
     length (meteors s) + length (meteorPool s) \<le> maxMeteors \<and>
     length (particles s) \<le> maxParticles \<and>
     length (lightnings s) \<le> 6 \<and>
     list_all (\<lambda>m. m_trail m \<noteq> [] \<and> length (m_trail m) \<le> maxMeteorTrail) (meteors s) \<and>
     list_all (\<lambda>m. length (m_trail m) \<le> maxMeteorTrail) (meteorPool s) \<and>
     list_all (\<lambda>L. l_points L \<noteq> []) (lightnings s)"

section \<open>Scenes for the examples\<close>

text \<open>
  An 800 by 600 scene with one particle, one meteor and one bolt, and a random source
  that always returns one half.
\<close>

definition demoScene :: scene where
  "demoScene =
     (initial (\<lambda>k. 1 / 2) False 1 0)
       \<lparr>width := 800, height := 600, cx := 400, cy := 300,
        particles := [\<lparr>p_x = 400, p_y = 300, p_vx = 100, p_vy = 0, p_life = 1000, p_age = 0,
                        p_size = 2, p_color = (30, 60)\<rparr>],
        meteors := [\<lparr>m_x = 100, m_y = 100, m_vx = 1000, m_vy = 0, m_life = 2000, m_age = 0,
                      m_trail = [\<lparr>pt_x = 100, pt_y = 100\<rparr>], m_size = 2, m_hue = 40\<rparr>],
        lightnings := [\<lparr>l_points = [\<lparr>pt_x = 10, pt_y = 10\<rparr>, \<lparr>pt_x = 20, pt_y = 90\<rparr>],
                         l_age = 0, l_life = 200, l_alpha = 1\<rparr>]\<rparr>"

section \<open>Auxiliary facts\<close>

subsection \<open>Rounding\<close>

lemma roundEven_of_int [simp]: "roundEven (of_int k) = k"
  by (simp add: roundEven_def)

lemma roundEven_le: "q \<le> of_int k \<Longrightarrow> roundEven q \<le> k"
  unfolding roundEven_def Let_def by (auto simp: floor_le_iff le_floor_iff)

lemma roundEven_ge: "of_int k \<le> q \<Longrightarrow> k \<le> roundEven q"
proof -
  assume "of_int k \<le> q"
  then have "k \<le> \<lfloor>q\<rfloor>" by (simp add: le_floor_iff)
  then show ?thesis unfolding roundEven_def Let_def by auto
qed

lemma roundEven_mono: "q \<le> q' \<Longrightarrow> roundEven q \<le> roundEven q'"
proof -
  assume le: "q \<le> q'"
  have f: "\<lfloor>q\<rfloor> \<le> \<lfloor>q'\<rfloor>" using le by (rule floor_mono)
  show ?thesis
  proof (cases "\<lfloor>q\<rfloor> = \<lfloor>q'\<rfloor>")
    case True
    then show ?thesis using le unfolding roundEven_def Let_def by auto
  next
    case False
    then have "\<lfloor>q\<rfloor> + 1 \<le> \<lfloor>q'\<rfloor>" using f by simp
    moreover have "roundEven q \<le> \<lfloor>q\<rfloor> + 1" unfolding roundEven_def Let_def by auto
    moreover have "\<lfloor>q'\<rfloor> \<le> roundEven q'" unfolding roundEven_def Let_def by auto
    ultimately show ?thesis by linarith
  qed
qed

lemma binade_bounds:
  assumes "x \<noteq> 0"
  shows "2 powr of_int (binade x) \<le> \<bar>x\<bar>" "\<bar>x\<bar> < 2 powr (of_int (binade x) + 1)"
proof -
  have "\<lfloor>log 2 \<bar>x\<bar>\<rfloor> = binade x" by (simp add: binade_def)
  then have "2 powr of_int (binade x) \<le> \<bar>x\<bar> \<and> \<bar>x\<bar> < 2 powr (of_int (binade x) + 1)"
    using assms by (subst (asm) floor_log_eq_powr_iff) auto
  then show "2 powr of_int (binade x) \<le> \<bar>x\<bar>" "\<bar>x\<bar> < 2 powr (of_int (binade x) + 1)"
    by simp_all
qed

lemma binade_eq:
  assumes "2 powr of_int e \<le> \<bar>x\<bar>" "\<bar>x\<bar> < 2 powr (of_int e + 1)"
  shows "binade x = e"
proof -
  have "0 < \<bar>x\<bar>" using assms(1) powr_gt_zero [of 2 "of_int e"] by linarith
  then show ?thesis
    unfolding binade_def using assms by (subst floor_log_eq_powr_iff) auto
qed

lemma binade_mono:
  assumes "0 < x" "x \<le> y"
  shows "binade x \<le> binade y"
  unfolding binade_def using assms by (intro floor_mono) (simp add: log_le_cancel_iff)

lemma ulp_pos [simp]: "0 < ulp x" "0 \<le> ulp x"
  by (simp_all add: ulp_def)

lemma ulp_scale:
  "ulp x * 2 ^ 52 = 2 powr of_int (binade x)" "ulp x * 2 ^ 53 = 2 powr (of_int (binade x) + 1)"
proof -
  have p: "(2::real) ^ 52 = 2 powr 52" "(2::real) ^ 53 = 2 powr 53"
    by (simp_all add: powr_numeral)
  show "ulp x * 2 ^ 52 = 2 powr of_int (binade x)"
    unfolding p ulp_def powr_add [symmetric] by simp
  show "ulp x * 2 ^ 53 = 2 powr (of_int (binade x) + 1)"
    unfolding p ulp_def powr_add [symmetric] by (simp add: add.commute)
qed

lemma quotient_bounds:
  assumes "x \<noteq> 0"
  shows "2 ^ 52 \<le> \<bar>x\<bar> / ulp x" "\<bar>x\<bar> / ulp x \<le> 2 ^ 53"
proof -
  have "2 ^ 52 * ulp x \<le> \<bar>x\<bar>"
    using binade_bounds(1) [OF assms] unfolding ulp_scale(1) [symmetric] by (simp only: mult.commute)
  then show "2 ^ 52 \<le> \<bar>x\<bar> / ulp x"
    by (subst le_divide_eq) simp
  have "\<bar>x\<bar> \<le> 2 ^ 53 * ulp x"
    using binade_bounds(2) [OF assms] unfolding ulp_scale(2) [symmetric]
    by (simp only: mult.commute less_imp_le)
  then show "\<bar>x\<bar> / ulp x \<le> 2 ^ 53"
    by (subst divide_le_eq) simp
qed

lemma double_pos_bounds:
  assumes "0 < x"
  shows "2 powr of_int (binade x) \<le> double x" "double x \<le> 2 powr (of_int (binade x) + 1)"
proof -
  have x: "x \<noteq> 0" "\<bar>x\<bar> = x" "sgn x = 1" using assms by simp_all
  have "of_int (2 ^ 52) \<le> x / ulp x"
    using quotient_bounds(1) [OF x(1)] unfolding x(2) by simp
  then have "2 ^ 52 \<le> roundEven (x / ulp x)" by (rule roundEven_ge)
  then have "(2::real) ^ 52 \<le> of_int (roundEven (x / ulp x))"
    by (metis of_int_le_iff of_int_numeral of_int_power)
  then have "ulp x * 2 ^ 52 \<le> ulp x * of_int (roundEven (x / ulp x))"
    by (intro mult_left_mono) simp_all
  then show "2 powr of_int (binade x) \<le> double x"
    unfolding ulp_scale using x by (simp add: double_def)
  have "x / ulp x \<le> of_int (2 ^ 53)"
    using quotient_bounds(2) [OF x(1)] unfolding x(2) by simp
  then have "roundEven (x / ulp x) \<le> 2 ^ 53" by (rule roundEven_le)
  then have "of_int (roundEven (x / ulp x)) \<le> (2::real) ^ 53"
    by (metis of_int_le_iff of_int_numeral of_int_power)
  then have "ulp x * of_int (roundEven (x / ulp x)) \<le> ulp x * 2 ^ 53"
    by (intro mult_left_mono) simp_all
  then show "double x \<le> 2 powr (of_int (binade x) + 1)"
    unfolding ulp_scale using x by (simp add: double_def)
qed

lemma double_mono_pos:
  assumes "0 < x" "x \<le> y"
  shows "double x \<le> double y"
proof (cases "binade x = binade y")
  case True
  then have u: "ulp x = ulp y" by (simp add: ulp_def)
  have "x / ulp y \<le> y / ulp y" using assms(2) by (intro divide_right_mono) simp_all
  then have "roundEven (x / ulp y) \<le> roundEven (y / ulp y)" by (rule roundEven_mono)
  then have "ulp y * of_int (roundEven (x / ulp y)) \<le> ulp y * of_int (roundEven (y / ulp y))"
    by (intro mult_left_mono) simp_all
  then show ?thesis using assms by (simp add: double_def u)
next
  case False
  then have "binade x + 1 \<le> binade y" using binade_mono [OF assms] by simp
  then have "(2::real) powr (of_int (binade x) + 1) \<le> 2 powr of_int (binade y)"
  proof (intro powr_mono)
    show "real_of_int (binade x) + 1 \<le> real_of_int (binade y)"
      using \<open>binade x + 1 \<le> binade y\<close> by linarith
  qed simp
  moreover have "double x \<le> 2 powr (of_int (binade x) + 1)" using assms(1) by (rule double_pos_bounds)
  moreover have "2 powr of_int (binade y) \<le> double y"
    using assms by (intro double_pos_bounds) simp
  ultimately show ?thesis by linarith
qed

lemma binade_minus [simp]: "binade (- x) = binade x"
  by (simp add: binade_def)

lemma double_minus: "double (- x) = - double x"
  by (simp add: double_def ulp_def sgn_minus)

lemma double_zero [simp]: "double 0 = 0"
  by (simp add: double_def)

lemma double_nonneg: "0 \<le> x \<Longrightarrow> 0 \<le> double x"
proof (cases "x = 0")
  case True
  then show ?thesis by simp
next
  case False
  assume "0 \<le> x"
  with False have "0 < x" by simp
  from double_pos_bounds(1) [OF this] powr_gt_zero [of 2 "of_int (binade x)"]
  show ?thesis by linarith
qed

lemma double_mono: "x \<le> y \<Longrightarrow> double x \<le> double y"
proof -
  assume le: "x \<le> y"
  consider (a) "0 < x" | (b) "x \<le> 0" "0 \<le> y" | (c) "y < 0" using le by linarith
  then show ?thesis
  proof cases
    case a
    then show ?thesis using le by (rule double_mono_pos)
  next
    case b
    have "0 \<le> double (- x)" using b(1) by (intro double_nonneg) simp
    then have "double x \<le> 0" by (simp add: double_minus)
    moreover have "0 \<le> double y" using b(2) by (rule double_nonneg)
    ultimately show ?thesis by linarith
  next
    case c
    then have "double (- y) \<le> double (- x)" using le by (intro double_mono_pos) simp_all
    then show ?thesis by (simp add: double_minus)
  qed
qed

lemma double_of_nat_pos:
  assumes "0 < n" "n < 2 ^ 52"
  shows "double (of_int n) = of_int n"
proof -
  define x :: real where "x = of_int n"
  have x: "0 < x" "x \<noteq> 0" "\<bar>x\<bar> = x" "sgn x = 1" using assms(1) by (simp_all add: x_def)
  have "x < of_int (2 ^ 52)" unfolding x_def using assms(2) by (simp only: of_int_less_iff)
  then have "x < 2 powr 52" by (simp add: powr_numeral)
  have "binade x < 52"
  proof (rule ccontr)
    assume "\<not> binade x < 52"
    then have "(2::real) powr 52 \<le> 2 powr of_int (binade x)" by (intro powr_mono) simp_all
    with binade_bounds(1) [OF x(2)] \<open>x < 2 powr 52\<close> x(3) show False by linarith
  qed
  define d where "d = nat (52 - binade x)"
  have d: "of_int (binade x) - 52 = - real d" using \<open>binade x < 52\<close> by (simp add: d_def)
  have u: "ulp x = 1 / 2 ^ d"
    by (simp add: ulp_def d powr_minus powr_realpow inverse_eq_divide)
  have "x / ulp x = of_int (n * 2 ^ d)" unfolding u by (simp add: x_def)
  then have "roundEven (x / ulp x) = n * 2 ^ d" by (simp only: roundEven_of_int)
  then have "double x = x" using x unfolding double_def u by (simp add: x_def)
  then show ?thesis by (simp add: x_def)
qed

lemma double_of_int:
  assumes "\<bar>n\<bar> < 2 ^ 52"
  shows "double (of_int n) = of_int n"
proof -
  consider (z) "n = 0" | (p) "0 < n" | (m) "n < 0" by linarith
  then show ?thesis
  proof cases
    case z
    then show ?thesis by simp
  next
    case p
    then show ?thesis using assms by (intro double_of_nat_pos) simp_all
  next
    case m
    then have "double (of_int (- n)) = of_int (- n)" using assms by (intro double_of_nat_pos) simp_all
    then show ?thesis by (simp add: double_minus)
  qed
qed

lemma double_numeral [simp]:
  "numeral k < (2::int) ^ 52 \<Longrightarrow> double (numeral k) = numeral k"
  "numeral k < (2::int) ^ 52 \<Longrightarrow> double (- numeral k) = - numeral k"
  using double_of_int [of "numeral k"] double_of_int [of "- numeral k"] by simp_all

lemma double_one [simp]: "double 1 = 1"
  using double_of_int [of 1] by simp

lemma double_eval:
  assumes "2 powr of_int e \<le> \<bar>x\<bar>" "\<bar>x\<bar> < 2 powr (of_int e + 1)"
  shows "double x = sgn x * (2 powr (of_int e - 52) * of_int (roundEven (\<bar>x\<bar> / 2 powr (of_int e - 52))))"
proof -
  have "x \<noteq> 0" using assms(1) powr_gt_zero [of 2 "of_int e"] by auto
  then show ?thesis by (simp add: double_def ulp_def binade_eq [OF assms])
qed

lemma edge5: "double ((1 - 1 / 2 ^ 52) * 5) = 5 - 1 / 2 ^ 50"
proof -
  have "double ((1 - 1 / 2 ^ 52) * 5)
     = sgn ((1 - 1 / 2 ^ 52) * 5 :: real) * (2 powr (of_int 2 - 52) * of_int (roundEven (\<bar>(1 - 1 / 2 ^ 52) * 5\<bar> / 2 powr (of_int 2 - 52))))"
    by (rule double_eval) (simp_all add: powr_numeral)
  also have "\<dots> = 5 - 1 / 2 ^ 50"
    by (simp add: powr_minus powr_numeral roundEven_def Let_def)
  finally show ?thesis .
qed

lemma edge9: "double (5 - 1 / 2 ^ 50 + 4) = 9"
proof -
  have "double (5 - 1 / 2 ^ 50 + 4)
     = sgn (5 - 1 / 2 ^ 50 + 4 :: real) * (2 powr (of_int 3 - 52) * of_int (roundEven (\<bar>5 - 1 / 2 ^ 50 + 4\<bar> / 2 powr (of_int 3 - 52))))"
    by (rule double_eval) (simp_all add: powr_numeral)
  also have "\<dots> = 9"
    by (simp add: powr_minus powr_numeral roundEven_def Let_def)
  finally show ?thesis .
qed

lemma edge41: "double ((1 - 1 / 2 ^ 53) * 41) = 41 - 1 / 2 ^ 47"
proof -
  have "double ((1 - 1 / 2 ^ 53) * 41)
     = sgn ((1 - 1 / 2 ^ 53) * 41 :: real) * (2 powr (of_int 5 - 52) * of_int (roundEven (\<bar>(1 - 1 / 2 ^ 53) * 41\<bar> / 2 powr (of_int 5 - 52))))"
    by (rule double_eval) (simp_all add: powr_numeral)
  also have "\<dots> = 41 - 1 / 2 ^ 47"
    by (simp add: powr_minus powr_numeral roundEven_def Let_def)
  finally show ?thesis .
qed

lemma edge61: "double (41 - 1 / 2 ^ 47 + 20) = 61 - 1 / 2 ^ 47"
proof -
  have "double (41 - 1 / 2 ^ 47 + 20)
     = sgn (41 - 1 / 2 ^ 47 + 20 :: real) * (2 powr (of_int 5 - 52) * of_int (roundEven (\<bar>41 - 1 / 2 ^ 47 + 20\<bar> / 2 powr (of_int 5 - 52))))"
    by (rule double_eval) (simp_all add: powr_numeral)
  also have "\<dots> = 61 - 1 / 2 ^ 47"
    by (simp add: powr_minus powr_numeral roundEven_def Let_def)
  finally show ?thesis .
qed

subsection \<open>Random numbers\<close>

lemma rand_eq: "rand a b s = (scaled (rnd s (rpos s)) a b, s\<lparr>rpos := Suc (rpos s)\<rparr>)"
  by (simp add: rand_def random_def scaled_def)

lemma randInt_eq:
  "randInt a b s =
     (\<lfloor>scaled (rnd s (rpos s)) (of_int a) (of_int (b + 1))\<rfloor>, s\<lparr>rpos := Suc (rpos s)\<rparr>)"
  by (simp add: randInt_def rand_eq)

lemma scaled_ge:
  assumes "0 \<le> u" "mn \<le> mx"
  shows "double mn \<le> scaled u mn mx"
proof -
  have "0 \<le> double (mx - mn)" using assms(2) by (intro double_nonneg) simp
  then have "0 \<le> double (u * double (mx - mn))" using assms(1) by (intro double_nonneg) simp
  then show ?thesis unfolding scaled_def by (intro double_mono) simp
qed

lemma scaled_le:
  assumes "0 \<le> u" "u \<le> 1" "mn \<le> mx" "double (mx - mn) = mx - mn" "double mx = mx"
  shows "scaled u mn mx \<le> mx"
proof -
  have "u * (mx - mn) \<le> 1 * (mx - mn)" using assms(2,3) by (intro mult_right_mono) simp_all
  then have "double (u * (mx - mn)) \<le> double (mx - mn)" by (intro double_mono) simp
  then have "double (u * (mx - mn)) + mn \<le> mx" using assms(4) by simp
  then have "double (double (u * (mx - mn)) + mn) \<le> double mx" by (rule double_mono)
  then show ?thesis by (simp add: scaled_def assms(4,5))
qed

lemma scaled_range:
  assumes "0 \<le> u" "u \<le> 1" "mn \<le> mx" "double (mx - mn) = mx - mn" "double mx = mx"
    "double mn = mn"
  shows "mn \<le> scaled u mn mx \<and> scaled u mn mx \<le> mx"
  using scaled_ge [OF assms(1,3)] scaled_le [OF assms(1-5)] assms(6) by simp

lemma scaled_edge: "scaled (1 - 1 / 2 ^ 52) 4 9 = 9"
proof -
  have "scaled (1 - 1 / 2 ^ 52) 4 9 = double (double ((1 - 1 / 2 ^ 52) * 5) + 4)"
    by (simp add: scaled_def)
  also have "\<dots> = 9" by (simp only: edge5 edge9)
  finally show ?thesis .
qed

lemma doubleSource_unit: "doubleSource r \<Longrightarrow> unitSource r"
  unfolding doubleSource_def unitSource_def
proof
  fix k
  assume a: "\<forall>k. 0 \<le> r k \<and> r k \<le> 1 - 1 / 2 ^ 53"
  have "(1 - 1 / 2 ^ 53 :: real) < 1" by simp
  then show "0 \<le> r k \<and> r k < 1" using a [rule_format, of k] by linarith
qed

lemma hue_range:
  assumes "0 \<le> u" "u \<le> 1 - 1 / 2 ^ 53"
  shows "20 \<le> \<lfloor>scaled u 20 61\<rfloor> \<and> \<lfloor>scaled u 20 61\<rfloor> \<le> 60"
proof -
  have "double 20 \<le> scaled u 20 61" using assms(1) by (intro scaled_ge) simp_all
  then have lo: "20 \<le> \<lfloor>scaled u 20 61\<rfloor>" by (simp add: le_floor_iff)
  have "u * 41 \<le> (1 - 1 / 2 ^ 53) * 41" using assms(2) by simp
  then have "double (u * 41) \<le> 41 - 1 / 2 ^ 47"
    using double_mono [of "u * 41" "(1 - 1 / 2 ^ 53) * 41"] by (simp only: edge41)
  then have "double (u * 41) + 20 \<le> 41 - 1 / 2 ^ 47 + 20" by simp
  then have "double (double (u * 41) + 20) \<le> 61 - 1 / 2 ^ 47"
    using double_mono [of "double (u * 41) + 20" "41 - 1 / 2 ^ 47 + 20"] by (simp only: edge61)
  moreover have "scaled u 20 61 = double (double (u * 41) + 20)"
    by (simp add: scaled_def)
  ultimately have "scaled u 20 61 < 61" by simp
  then have "\<lfloor>scaled u 20 61\<rfloor> < 61" by (simp add: floor_less_iff)
  with lo show ?thesis by simp
qed

lemma upt_0_Suc_map: "[0..<Suc n] = 0 # map Suc [0..<n]"
  by (simp add: upt_conv_Cons map_Suc_upt del: upt_Suc)

subsection \<open>Spawning\<close>

lemma newStar_snd: "snd (newStar s) = s\<lparr>rpos := rpos s + 6\<rparr>"
  by (simp add: newStar_def random_def)

lemma newStar_fst_stars:
  "fst (newStar (s\<lparr>stars := xs, rpos := k\<rparr>)) = fst (newStar (s\<lparr>rpos := k\<rparr>))"
  by (simp add: newStar_def random_def)

lemma initStars_loop_eq:
  "initStars_loop n s =
     s\<lparr>rpos := rpos s + 6 * n,
       stars := stars s @ map (\<lambda>i. fst (newStar (s\<lparr>rpos := rpos s + 6 * i\<rparr>))) [0..<n]\<rparr>"
proof (induction n arbitrary: s)
  case 0
  then show ?case by simp
next
  case (Suc n)
  obtain st where st: "newStar s = (st, s\<lparr>rpos := rpos s + 6\<rparr>)"
    using newStar_snd [of s] by (cases "newStar s") simp
  have st0: "fst (newStar (s\<lparr>rpos := rpos s\<rparr>)) = st" using st by simp
  show ?case
    unfolding upt_0_Suc_map
    by (simp add: st Suc.IH newStar_fst_stars st0 o_def add.assoc del: upt_Suc)
qed

lemma newBurstParticle_snd: "snd (newBurstParticle s) = s\<lparr>rpos := rpos s + 6\<rparr>"
  by (simp add: newBurstParticle_def random_def rand_eq randInt_eq Let_def)

lemma newBurstParticle_fst_particles:
  "fst (newBurstParticle (s\<lparr>particles := xs, rpos := k\<rparr>))
     = fst (newBurstParticle (s\<lparr>rpos := k\<rparr>))"
  by (simp add: newBurstParticle_def random_def rand_eq randInt_eq Let_def)

lemma triggerBigBang_loop_eq:
  "triggerBigBang_loop n s =
     s\<lparr>rpos := rpos s + 6 * n,
       particles := particles s
         @ map (\<lambda>i. fst (newBurstParticle (s\<lparr>rpos := rpos s + 6 * i\<rparr>))) [0..<n]\<rparr>"
proof (induction n arbitrary: s)
  case 0
  then show ?case by simp
next
  case (Suc n)
  obtain p where p: "newBurstParticle s = (p, s\<lparr>rpos := rpos s + 6\<rparr>)"
    using newBurstParticle_snd [of s] by (cases "newBurstParticle s") simp
  have p0: "fst (newBurstParticle (s\<lparr>rpos := rpos s\<rparr>)) = p" using p by simp
  show ?case
    unfolding upt_0_Suc_map
    by (simp add: p Suc.IH newBurstParticle_fst_particles p0 o_def add.assoc del: upt_Suc)
qed

lemma placeMeteor_eq:
  "\<exists>k x y vx vy.
     placeMeteor m s = (m\<lparr>m_x := x, m_y := y, m_vx := vx, m_vy := vy\<rparr>, s\<lparr>rpos := k\<rparr>)"
proof (cases "rnd s (rpos s) < 6 / 10")
  case True
  then show ?thesis
    by (simp add: placeMeteor_def rand_eq random_def Let_def) blast
next
  case False
  then show ?thesis
    by (cases "rnd s (Suc (rpos s)) < 1 / 2")
       (simp_all add: placeMeteor_def rand_eq random_def Let_def, blast+)
qed

lemma createMeteor_full: "length (meteors s) \<ge> maxMeteors \<Longrightarrow> createMeteor s = s"
  by (simp add: createMeteor_def)

lemma createMeteor_spawn:
  assumes "length (meteors s) < maxMeteors"
  shows "\<exists>k m. createMeteor s =
            s\<lparr>rpos := k, meteors := meteors s @ [m], meteorPool := butlast (meteorPool s)\<rparr>
          \<and> meteorSpawn (rnd s) m"
proof -
  define m0 where "m0 = (if meteorPool s = [] then freshMeteor else last (meteorPool s))"
  define s0 where "s0 = s\<lparr>meteorPool := butlast (meteorPool s)\<rparr>"
  obtain k x y vx vy where
    pm: "placeMeteor m0 s0 = (m0\<lparr>m_x := x, m_y := y, m_vx := vx, m_vy := vy\<rparr>, s0\<lparr>rpos := k\<rparr>)"
    using placeMeteor_eq by blast
  have sel: "(if meteorPool s = [] then (freshMeteor, s)
              else (last (meteorPool s), s\<lparr>meteorPool := butlast (meteorPool s)\<rparr>)) = (m0, s0)"
    by (simp add: m0_def s0_def)
  define m where "m = m0\<lparr>m_x := x, m_y := y, m_vx := vx, m_vy := vy,
                        m_life := scaled (rnd s k) 900 2200, m_age := 0,
                        m_size := scaled (rnd s (Suc k)) 1 (13 / 5),
                        m_hue := \<lfloor>scaled (rnd s (Suc (Suc k))) 20 46\<rfloor>,
                        m_trail := [\<lparr>pt_x = x, pt_y = y\<rparr>]\<rparr>"
  have "createMeteor s =
          s\<lparr>rpos := Suc (Suc (Suc k)), meteors := meteors s @ [m],
            meteorPool := butlast (meteorPool s)\<rparr>"
    using assms pm sel by (simp add: createMeteor_def rand_eq randInt_eq Let_def s0_def m_def)
  moreover have "meteorSpawn (rnd s) m"
    unfolding meteorSpawn_def by (auto simp: m_def)
  ultimately show ?thesis by blast
qed

lemma spawnLightning_loop_eq:
  "\<exists>k ps. spawnLightning_loop n step lx ly pts s = (pts @ ps, s\<lparr>rpos := k\<rparr>) \<and> length ps = n"
proof (induction n arbitrary: lx ly pts s)
  case 0
  have "spawnLightning_loop 0 step lx ly pts s = (pts @ [], s\<lparr>rpos := rpos s\<rparr>)" by simp
  then show ?case by blast
next
  case (Suc n)
  define px where "px = lx + scaled (rnd s (rpos s)) (- 80) 80"
  define py where "py = ly + step + scaled (rnd s (Suc (rpos s))) (- 20) 40"
  define p where "p = \<lparr>pt_x = px, pt_y = py\<rparr>"
  obtain k ps where
    ih: "spawnLightning_loop n step px py (pts @ [p]) (s\<lparr>rpos := Suc (Suc (rpos s))\<rparr>)
           = ((pts @ [p]) @ ps, s\<lparr>rpos := Suc (Suc (rpos s))\<rparr>\<lparr>rpos := k\<rparr>) \<and> length ps = n"
    using Suc.IH by blast
  have "spawnLightning_loop (Suc n) step lx ly pts s = (pts @ (p # ps), s\<lparr>rpos := k\<rparr>)"
    using ih by (simp add: rand_eq Let_def px_def py_def p_def)
  moreover have "length (p # ps) = Suc n" using ih by simp
  ultimately show ?case by blast
qed

lemma spawnLightning_eq:
  "\<exists>k L. spawnLightning s =
       s\<lparr>rpos := k,
         lightnings := (if length (lightnings s) \<ge> 6 then tl (lightnings s @ [L])
                        else lightnings s @ [L])\<rparr>
     \<and> l_points L \<noteq> [] \<and> boltSpawn (rnd s) L"
proof -
  define startX where "startX = scaled (rnd s (rpos s)) 0 (width s)"
  define startY where "startY = scaled (rnd s (Suc (rpos s))) 0 (height s / 5)"
  define endY where "endY = scaled (rnd s (Suc (Suc (rpos s)))) (height s / 5) (height s * 4 / 5)"
  define segments where "segments = \<lfloor>scaled (rnd s (Suc (Suc (Suc (rpos s))))) 4 9\<rfloor>"
  define s4 where "s4 = s\<lparr>rpos := Suc (Suc (Suc (Suc (rpos s))))\<rparr>"
  obtain k ps where
    lp: "spawnLightning_loop (nat segments) ((endY - startY) / of_int segments)
           startX startY [\<lparr>pt_x = startX, pt_y = startY\<rparr>] s4
         = ([\<lparr>pt_x = startX, pt_y = startY\<rparr>] @ ps, s4\<lparr>rpos := k\<rparr>)"
    and len: "length ps = nat segments"
    using spawnLightning_loop_eq by blast
  define L where "L = \<lparr>l_points = \<lparr>pt_x = startX, pt_y = startY\<rparr> # ps, l_age = 0,
                       l_life = scaled (rnd s k) 120 260, l_alpha = 1\<rparr>"
  have "spawnLightning s = s\<lparr>rpos := Suc k,
         lightnings := (if length (lightnings s) \<ge> 6 then tl (lightnings s @ [L])
                        else lightnings s @ [L])\<rparr>"
    using lp
    by (simp add: spawnLightning_def rand_eq randInt_eq Let_def startX_def startY_def endY_def
          segments_def s4_def L_def)
  moreover have "l_points L \<noteq> []" by (simp add: L_def)
  moreover have "boltSpawn (rnd s) L"
    unfolding boltSpawn_def by (auto simp: L_def len segments_def)
  ultimately show ?thesis by blast
qed

lemma boltSpawn_length:
  assumes "unitSource r" "boltSpawn r L"
  shows "5 \<le> length (l_points L) \<and> length (l_points L) \<le> 10"
proof -
  obtain j where j: "length (l_points L) = nat \<lfloor>scaled (r j) 4 9\<rfloor> + 1"
    using assms(2) by (auto simp: boltSpawn_def)
  have "0 \<le> r j" "r j \<le> 1" using assms(1) by (auto simp: unitSource_def less_imp_le)
  then have "4 \<le> scaled (r j) 4 9 \<and> scaled (r j) 4 9 \<le> 9"
    by (intro scaled_range) simp_all
  then have "4 \<le> \<lfloor>scaled (r j) 4 9\<rfloor>" "\<lfloor>scaled (r j) 4 9\<rfloor> \<le> 9"
    by (simp_all add: le_floor_iff floor_le_iff)
  then show ?thesis using j by arith
qed

subsection \<open>The draw loops\<close>

lemma take_splice: "k < length xs \<Longrightarrow> take k (take k xs @ drop (Suc k) xs) = take k xs"
  by simp

lemma drop_splice: "k < length xs \<Longrightarrow> drop k (take k xs @ drop (Suc k) xs) = drop (Suc k) xs"
  by simp

lemma drop_update_same: "k < length xs \<Longrightarrow> drop k (xs[k := y]) = y # drop (Suc k) xs"
  by (metis Cons_nth_drop_Suc drop_update_cancel length_list_update lessI nth_list_update_eq)

lemma drawParticle_eq:
  assumes "k < length (particles s)"
  shows "drawParticle dt k s =
     Inr (if spec_particle_removed dt (particles s ! k)
      then s\<lparr>particles := take k (particles s) @ drop (Suc k) (particles s)\<rparr>
      else s\<lparr>particles := (particles s)[k := spec_particle_update dt (particles s ! k)],
             painted := painted s @ [spec_particle_arc (spec_particle_update dt (particles s ! k))]\<rparr>)"
  using assms
  by (simp add: drawParticle_def spec_particle_removed_def spec_particle_update_def
        spec_particle_arc_def Let_def)

lemma drawParticles_from_eq:
  "k \<le> length (particles s) \<Longrightarrow>
   drawParticles_from dt k s =
     Inr (s\<lparr>particles := map (spec_particle_update dt)
                      (filter (\<lambda>p. \<not> spec_particle_removed dt p) (take k (particles s)))
                    @ drop k (particles s),
       painted := painted s
         @ map spec_particle_arc
             (rev (map (spec_particle_update dt)
                     (filter (\<lambda>p. \<not> spec_particle_removed dt p) (take k (particles s)))))\<rparr>)"
proof (induction k arbitrary: s)
  case 0
  then show ?case by simp
next
  case (Suc k)
  then have k: "k < length (particles s)" by simp
  show ?case
  proof (cases "spec_particle_removed dt (particles s ! k)")
    case True
    then show ?thesis
      using k by (simp add: drawParticle_eq Suc.IH take_Suc_conv_app_nth)
  next
    case False
    then show ?thesis
      using k by (simp add: drawParticle_eq Suc.IH take_Suc_conv_app_nth drop_update_same)
  qed
qed

lemma drawParticles_eq:
  "drawParticles dt s =
     Inr (s\<lparr>particles := map (spec_particle_update dt)
                      (filter (\<lambda>p. \<not> spec_particle_removed dt p) (particles s)),
       painted := painted s
         @ map spec_particle_arc
             (rev (map (spec_particle_update dt)
                     (filter (\<lambda>p. \<not> spec_particle_removed dt p) (particles s))))\<rparr>)"
  by (simp add: drawParticles_def drawParticles_from_eq)

lemma integrateMeteor_trail [simp]: "m_trail (integrateMeteor dt m) = m_trail m"
  by (simp add: integrateMeteor_def Let_def)

lemma integrateMeteor_fields:
  "m_age (integrateMeteor dt m) = m_age m + dt"
  "m_life (integrateMeteor dt m) = m_life m"
  "m_vy (integrateMeteor dt m) = m_vy m + 300 * (dt / 1000) * timeScale"
  "m_x (integrateMeteor dt m) = m_x m + m_vx m * (dt / 1000) * timeScale"
  "m_y (integrateMeteor dt m) = m_y m + (m_vy m + 300 * (dt / 1000) * timeScale) * (dt / 1000) * timeScale"
  by (simp_all add: integrateMeteor_def Let_def)

lemma pushTrail_primed:
  assumes "m_trail m \<noteq> []"
  shows "\<exists>tr. pushTrail m = Inr (m\<lparr>m_trail := tr\<rparr>) \<and> tr \<noteq> []
           \<and> last tr = \<lparr>pt_x = m_x m, pt_y = m_y m\<rparr>
           \<and> (length (m_trail m) \<le> maxMeteorTrail \<longrightarrow> length tr \<le> maxMeteorTrail)"
proof -
  define lst where "lst = last (m_trail m)"
  define far where "far \<longleftrightarrow> (m_x m - pt_x lst) * (m_x m - pt_x lst) + (m_y m - pt_y lst) * (m_y m - pt_y lst) > 16"
  define cur where "cur = \<lparr>pt_x = m_x m, pt_y = m_y m\<rparr>"
  define tr where "tr = (if far then (if length (m_trail m @ [cur]) > maxMeteorTrail
        then tl (m_trail m @ [cur]) else m_trail m @ [cur]) else butlast (m_trail m) @ [cur])"
  have lc: "lst\<lparr>pt_x := m_x m, pt_y := m_y m\<rparr> = cur" by (simp add: cur_def)
  have "pushTrail m = Inr (m\<lparr>m_trail := tr\<rparr>)"
    using assms lc by (simp add: pushTrail_def Let_def lst_def [symmetric] far_def [symmetric] cur_def [symmetric] tr_def)
  moreover have "tr \<noteq> []" using assms by (cases "m_trail m") (auto simp: tr_def)
  moreover have "last tr = cur" using assms by (cases "m_trail m") (auto simp: tr_def)
  moreover have "length (m_trail m) \<le> maxMeteorTrail \<longrightarrow> length tr \<le> maxMeteorTrail"
    using assms by (auto simp: tr_def)
  ultimately show ?thesis unfolding cur_def by blast
qed

lemma advanceMeteor_primed:
  assumes "m_trail m \<noteq> []"
  shows "pushTrail (integrateMeteor dt m) = Inr (advanceMeteor dt m)"
    and "m_trail (advanceMeteor dt m) \<noteq> []"
    and "length (m_trail m) \<le> maxMeteorTrail \<Longrightarrow> length (m_trail (advanceMeteor dt m)) \<le> maxMeteorTrail"
    and "m_age (advanceMeteor dt m) = m_age m + dt"
    and "m_life (advanceMeteor dt m) = m_life m"
proof -
  obtain tr where tr: "pushTrail (integrateMeteor dt m) = Inr ((integrateMeteor dt m)\<lparr>m_trail := tr\<rparr>)"
    "tr \<noteq> []" "length (m_trail (integrateMeteor dt m)) \<le> maxMeteorTrail \<longrightarrow> length tr \<le> maxMeteorTrail"
    using pushTrail_primed [of "integrateMeteor dt m"] assms by auto
  have a: "advanceMeteor dt m = (integrateMeteor dt m)\<lparr>m_trail := tr\<rparr>"
    by (simp add: advanceMeteor_def tr(1))
  show "pushTrail (integrateMeteor dt m) = Inr (advanceMeteor dt m)" by (simp add: a tr(1))
  show "m_trail (advanceMeteor dt m) \<noteq> []" by (simp add: a tr(2))
  show "length (m_trail m) \<le> maxMeteorTrail \<Longrightarrow> length (m_trail (advanceMeteor dt m)) \<le> maxMeteorTrail"
    using tr(3) by (simp add: a)
  show "m_age (advanceMeteor dt m) = m_age m + dt" by (simp add: a integrateMeteor_fields)
  show "m_life (advanceMeteor dt m) = m_life m" by (simp add: a integrateMeteor_fields)
qed

lemma drawMeteor_eq:
  assumes "k < length (meteors s)" "m_trail (meteors s ! k) \<noteq> []"
  shows "drawMeteor dt k s =
     Inr (if meteorGone s (advanceMeteor dt (meteors s ! k))
          then s\<lparr>rpos := rpos s + 2,
                 painted := painted s @ headOps (advanceMeteor dt (meteors s ! k)),
                 meteors := take k (meteors s) @ drop (Suc k) (meteors s),
                 meteorPool := meteorPool s @ [advanceMeteor dt (meteors s ! k)]\<rparr>
          else s\<lparr>rpos := rpos s + 2,
                 painted := painted s @ headOps (advanceMeteor dt (meteors s ! k)),
                 meteors := (meteors s)[k := advanceMeteor dt (meteors s ! k)]\<rparr>)"
  using assms
  by (simp add: drawMeteor_def advanceMeteor_primed(1) randInt_eq Let_def meteorGone_def headOps_def)

lemma drawMeteors_from_eq:
  "k \<le> length (meteors s) \<Longrightarrow> list_all (\<lambda>m. m_trail m \<noteq> []) (take k (meteors s)) \<Longrightarrow>
   drawMeteors_from dt k s =
     Inr (s\<lparr>rpos := rpos s + 2 * k,
            painted := painted s
              @ concat (map headOps (rev (map (advanceMeteor dt) (take k (meteors s))))),
            meteors := filter (\<lambda>m. \<not> meteorGone s m) (map (advanceMeteor dt) (take k (meteors s)))
                       @ drop k (meteors s),
            meteorPool := meteorPool s
              @ filter (meteorGone s) (rev (map (advanceMeteor dt) (take k (meteors s))))\<rparr>)"
proof (induction k arbitrary: s)
  case 0
  then show ?case by simp
next
  case (Suc k)
  then have k: "k < length (meteors s)" by simp
  have pr: "m_trail (meteors s ! k) \<noteq> []" "list_all (\<lambda>m. m_trail m \<noteq> []) (take k (meteors s))"
    using Suc.prems k by (simp_all add: take_Suc_conv_app_nth)
  show ?case
  proof (cases "meteorGone s (advanceMeteor dt (meteors s ! k))")
    case True
    then show ?thesis
      using k pr by (simp add: drawMeteor_eq Suc.IH take_Suc_conv_app_nth meteorGone_def)
  next
    case False
    then show ?thesis
      using k pr by (simp add: drawMeteor_eq Suc.IH take_Suc_conv_app_nth drop_update_same meteorGone_def)
  qed
qed

lemma drawMeteors_eq:
  assumes "list_all (\<lambda>m. m_trail m \<noteq> []) (meteors s)"
  shows "drawMeteors dt s =
     Inr (s\<lparr>rpos := rpos s + 2 * length (meteors s),
            painted := painted s
              @ concat (map headOps (rev (map (advanceMeteor dt) (meteors s)))),
            meteors := filter (\<lambda>m. \<not> meteorGone s m) (map (advanceMeteor dt) (meteors s)),
            meteorPool := meteorPool s
              @ filter (meteorGone s) (rev (map (advanceMeteor dt) (meteors s)))\<rparr>)"
  using assms by (simp add: drawMeteors_def drawMeteors_from_eq)

lemma drawBolt_eq:
  assumes "k < length (lightnings s)" "l_points (lightnings s ! k) \<noteq> []"
  shows "drawBolt dt lw k s =
     Inr (if l_age (ageBolt dt (lightnings s ! k)) > l_life (ageBolt dt (lightnings s ! k))
          then s\<lparr>painted := painted s @ boltOps lw (ageBolt dt (lightnings s ! k)),
                 lightnings := take k (lightnings s) @ drop (Suc k) (lightnings s)\<rparr>
          else s\<lparr>painted := painted s @ boltOps lw (ageBolt dt (lightnings s ! k)),
                 lightnings := (lightnings s)[k := ageBolt dt (lightnings s ! k)]\<rparr>)"
  using assms by (simp add: drawBolt_def ageBolt_def boltOps_def Let_def)

lemma drawLightning_from_eq:
  "k \<le> length (lightnings s) \<Longrightarrow> list_all (\<lambda>L. l_points L \<noteq> []) (take k (lightnings s)) \<Longrightarrow>
   \<exists>ops. drawLightning_from dt lw k s =
     Inr (s\<lparr>painted := painted s @ ops,
            lightnings := filter (\<lambda>L. \<not> l_age L > l_life L) (map (ageBolt dt) (take k (lightnings s)))
                          @ drop k (lightnings s)\<rparr>)"
proof (induction k arbitrary: s lw)
  case 0
  have "drawLightning_from dt lw 0 s = Inr (s\<lparr>painted := painted s @ [], lightnings := lightnings s\<rparr>)"
    by simp
  then show ?case by (intro exI [of _ "[]"]) simp
next
  case (Suc k)
  then have k: "k < length (lightnings s)" by simp
  have pr: "l_points (lightnings s ! k) \<noteq> []" "list_all (\<lambda>L. l_points L \<noteq> []) (take k (lightnings s))"
    using Suc.prems k by (simp_all add: take_Suc_conv_app_nth)
  define L where "L = ageBolt dt (lightnings s ! k)"
  define o1 where "o1 = boltOps lw L"
  have o1: "drawBolt dt lw k s =
     Inr (if l_age L > l_life L
          then s\<lparr>painted := painted s @ o1,
                 lightnings := take k (lightnings s) @ drop (Suc k) (lightnings s)\<rparr>
          else s\<lparr>painted := painted s @ o1,
                 lightnings := (lightnings s)[k := L]\<rparr>)"
    using drawBolt_eq [OF k pr(1)] unfolding L_def o1_def by simp
  define s1 where "s1 = (if l_age L > l_life L
          then s\<lparr>painted := painted s @ o1,
                 lightnings := take k (lightnings s) @ drop (Suc k) (lightnings s)\<rparr>
          else s\<lparr>painted := painted s @ o1,
                 lightnings := (lightnings s)[k := L]\<rparr>)"
  have s1k: "k \<le> length (lightnings s1)" "take k (lightnings s1) = take k (lightnings s)"
    using k by (auto simp: s1_def)
  obtain o2 where o2: "drawLightning_from dt 6 k s1 =
     Inr (s1\<lparr>painted := painted s1 @ o2,
            lightnings := filter (\<lambda>L. \<not> l_age L > l_life L) (map (ageBolt dt) (take k (lightnings s1)))
                          @ drop k (lightnings s1)\<rparr>)"
    using Suc.IH [of s1 6] s1k pr(2) by auto
  have "drawLightning_from dt lw (Suc k) s =
     Inr (s\<lparr>painted := painted s @ (o1 @ o2),
            lightnings := filter (\<lambda>L. \<not> l_age L > l_life L) (map (ageBolt dt) (take (Suc k) (lightnings s)))
                          @ drop (Suc k) (lightnings s)\<rparr>)"
    using k o1 o2 s1k
    by (cases "l_age L > l_life L")
       (simp_all add: s1_def [symmetric], simp_all add: s1_def take_Suc_conv_app_nth drop_update_same L_def)
  then show ?case by blast
qed

lemma drawLightning_eq:
  assumes "list_all (\<lambda>L. l_points L \<noteq> []) (lightnings s)"
  shows "\<exists>ops. drawLightning dt s =
     Inr (s\<lparr>painted := painted s @ ops,
            lightnings := filter (\<lambda>L. \<not> l_age L > l_life L) (map (ageBolt dt) (lightnings s))\<rparr>)"
proof (cases "lightnings s = []")
  case True
  then have "drawLightning dt s = Inr (s\<lparr>painted := painted s @ [],
            lightnings := filter (\<lambda>L. \<not> l_age L > l_life L) (map (ageBolt dt) (lightnings s))\<rparr>)"
    by (simp add: drawLightning_def)
  then show ?thesis by blast
next
  case False
  then show ?thesis
    using drawLightning_from_eq [of "length (lightnings s)" s dt "22 / 10"] assms
    by (simp add: drawLightning_def)
qed

lemma spawnMeteorTimer_eq:
  "\<exists>k ms pl lms. spawnMeteorTimer now s = s\<lparr>rpos := k, meteors := ms, meteorPool := pl, lastMeteorSpawn := lms\<rparr>
     \<and> ((ms = meteors s \<and> pl = meteorPool s)
         \<or> (length (meteors s) < maxMeteors
            \<and> (\<exists>m. ms = meteors s @ [m] \<and> pl = butlast (meteorPool s) \<and> meteorSpawn (rnd s) m)))"
proof -
  define s1 where "s1 = s\<lparr>rpos := Suc (rpos s)\<rparr>"
  define r where "r = scaled (rnd s (rpos s)) 200 meteorSpawnInterval"
  have unf: "spawnMeteorTimer now s =
      (if now - lastMeteorSpawn s > r then (createMeteor s1)\<lparr>lastMeteorSpawn := now\<rparr> else s1)"
    by (simp add: spawnMeteorTimer_def rand_eq s1_def r_def)
  show ?thesis
  proof (cases "now - lastMeteorSpawn s > r \<and> length (meteors s) < maxMeteors")
    case True
    then have "length (meteors s1) < maxMeteors" by (simp add: s1_def)
    from createMeteor_spawn [OF this] obtain k m where
      km: "createMeteor s1 = s1\<lparr>rpos := k, meteors := meteors s1 @ [m], meteorPool := butlast (meteorPool s1)\<rparr>"
      "meteorSpawn (rnd s1) m" by blast
    have "spawnMeteorTimer now s = s\<lparr>rpos := k, meteors := meteors s @ [m],
             meteorPool := butlast (meteorPool s), lastMeteorSpawn := now\<rparr>"
      using True km(1) by (simp add: unf s1_def)
    moreover have "meteorSpawn (rnd s) m" using km(2) by (simp add: s1_def)
    ultimately show ?thesis using True by blast
  next
    case False
    then have "spawnMeteorTimer now s = s\<lparr>rpos := Suc (rpos s), meteors := meteors s,
             meteorPool := meteorPool s,
             lastMeteorSpawn := (if now - lastMeteorSpawn s > r then now else lastMeteorSpawn s)\<rparr>"
      by (auto simp: unf s1_def createMeteor_full)
    then show ?thesis by blast
  qed
qed

lemma spawnLightningChance_eq:
  "\<exists>k ls. spawnLightningChance dt s = s\<lparr>rpos := k, lightnings := ls\<rparr>
     \<and> (ls = lightnings s
         \<or> (\<exists>L. ls = (if length (lightnings s) \<ge> 6 then tl (lightnings s @ [L])
                       else lightnings s @ [L])
                \<and> l_points L \<noteq> [] \<and> boltSpawn (rnd s) L))"
proof -
  define s1 where "s1 = s\<lparr>rpos := Suc (rpos s)\<rparr>"
  show ?thesis
  proof (cases "rnd s (rpos s) < lightningChancePerSecond * (dt / 1000)")
    case True
    obtain k L where kL: "spawnLightning s1 =
       s1\<lparr>rpos := k,
         lightnings := (if length (lightnings s1) \<ge> 6 then tl (lightnings s1 @ [L])
                        else lightnings s1 @ [L])\<rparr>" "l_points L \<noteq> []" "boltSpawn (rnd s1) L"
      using spawnLightning_eq by blast
    have "spawnLightningChance dt s = s\<lparr>rpos := k,
         lightnings := (if length (lightnings s) \<ge> 6 then tl (lightnings s @ [L])
                        else lightnings s @ [L])\<rparr>"
      using True kL(1) by (simp add: spawnLightningChance_def random_def s1_def)
    moreover have "boltSpawn (rnd s) L" using kL(3) by (simp add: s1_def)
    ultimately show ?thesis using kL(2) by blast
  next
    case False
    then have "spawnLightningChance dt s = s\<lparr>rpos := Suc (rpos s), lightnings := lightnings s\<rparr>"
      by (simp add: spawnLightningChance_def random_def)
    then show ?thesis by blast
  qed
qed

lemma heroShake_eq: "\<exists>k ht. heroShake now s = s\<lparr>rpos := k, heroTransform := ht\<rparr>"
proof (cases "heroEl s")
  case True
  show ?thesis
  proof (cases "now < heroShakeUntil s")
    case True
    with \<open>heroEl s\<close> show ?thesis
      by (simp add: heroShake_def rand_eq Let_def) blast
  next
    case False
    with \<open>heroEl s\<close> have "heroShake now s = s\<lparr>rpos := rpos s, heroTransform := None\<rparr>"
      by (simp add: heroShake_def)
    then show ?thesis by blast
  qed
next
  case False
  then have "heroShake now s = s\<lparr>rpos := rpos s, heroTransform := heroTransform s\<rparr>"
    by (simp add: heroShake_def)
  then show ?thesis by blast
qed

lemma backdrop_eq:
  "\<exists>ops. drawBlackHole (drawStars now (drawBackground s)) = s\<lparr>painted := ops\<rparr>"
  by (simp add: drawBlackHole_def drawStars_def drawBackground_def Let_def) blast

lemma newFlare_eq:
  "\<exists>p. newFlare s = (p, s\<lparr>rpos := rpos s + 8\<rparr>) \<and> flareSpawn (rnd s) p"
proof -
  obtain p s' where ps: "newFlare s = (p, s')" by (cases "newFlare s")
  then have "s' = s\<lparr>rpos := rpos s + 8\<rparr>"
    by (auto simp: newFlare_def rand_eq randInt_eq)
  moreover have "p_age p = 0" "p_life p = scaled (rnd s (Suc (Suc (Suc (Suc (rpos s)))))) 200 900"
    using ps by (auto simp: newFlare_def rand_eq randInt_eq)
  then have "flareSpawn (rnd s) p" unfolding flareSpawn_def by blast
  ultimately show ?thesis using ps by blast
qed

lemma flare_eq:
  "\<exists>k ps. flare now s = s\<lparr>rpos := k, particles := ps\<rparr>
     \<and> (ps = particles s
         \<or> (\<exists>p. ps = (if length (particles s) \<ge> maxParticles then tl (particles s @ [p])
                       else particles s @ [p])
                \<and> flareSpawn (rnd s) p))"
proof -
  define s1 where "s1 = s\<lparr>rpos := Suc (rpos s)\<rparr>"
  have same: "s = s\<lparr>rpos := rpos s, particles := particles s\<rparr>" by simp
  show ?thesis
  proof (cases "\<exists>tb. bigBangTime s = Some tb \<and> now - tb < 1200")
    case True
    then obtain tb where tb: "bigBangTime s = Some tb" "now - tb < 1200" by blast
    show ?thesis
    proof (cases "rnd s (rpos s) < 2 / 10")
      case True
      obtain p where p: "newFlare s1 = (p, s1\<lparr>rpos := rpos s1 + 8\<rparr>)" "flareSpawn (rnd s1) p"
        using newFlare_eq by blast
      have "flare now s = s\<lparr>rpos := rpos s + 9,
          particles := (if length (particles s) \<ge> maxParticles then tl (particles s @ [p])
                       else particles s @ [p])\<rparr>"
        using True tb p(1) by (simp add: flare_def random_def s1_def Let_def)
      moreover have "flareSpawn (rnd s) p" using p(2) by (simp add: s1_def)
      ultimately show ?thesis by blast
    next
      case False
      then have "flare now s = s\<lparr>rpos := Suc (rpos s), particles := particles s\<rparr>"
        using tb by (simp add: flare_def random_def)
      then show ?thesis by blast
    qed
  next
    case False
    then have "flare now s = s"
      by (auto simp: flare_def split: option.splits)
    then show ?thesis using same by metis
  qed
qed

lemma list_all_capped:
  "list_all P xs \<Longrightarrow> P x \<Longrightarrow> list_all P (if c then tl (xs @ [x]) else xs @ [x])"
  by (cases xs) auto

lemma length_capped:
  "length xs \<le> n \<Longrightarrow> length (if length xs \<ge> n then tl (xs @ [x]) else xs @ [x]) \<le> n"
  by auto

lemma loop_eq_spawn:
  fixes now :: real and s :: scene
  assumes run: "running s"
    and tr: "list_all (\<lambda>m. m_trail m \<noteq> []) (meteors s)"
    and pt: "list_all (\<lambda>L. l_points L \<noteq> []) (lightnings s)"
  defines "dt \<equiv> min (now - lastTime s) 48"
  defines "qs \<equiv> map (spec_particle_update dt)
                    (filter (\<lambda>p. \<not> spec_particle_removed dt p) (particles s))"
  shows "\<exists>k lms ht ops ms pl ls ps.
     loop now s =
       Inr (s\<lparr>lastTime := now, rpos := k, lastMeteorSpawn := lms, heroTransform := ht,
              painted := ops,
              meteors := filter (\<lambda>m. \<not> meteorGone s m) (map (advanceMeteor dt) ms),
              meteorPool := pl @ filter (meteorGone s) (rev (map (advanceMeteor dt) ms)),
              lightnings := filter (\<lambda>L. \<not> l_age L > l_life L) (map (ageBolt dt) ls),
              particles := ps\<rparr>)
     \<and> ((ms = meteors s \<and> pl = meteorPool s)
         \<or> (length (meteors s) < maxMeteors
            \<and> (\<exists>m. ms = meteors s @ [m] \<and> pl = butlast (meteorPool s) \<and> meteorSpawn (rnd s) m)))
     \<and> (ls = lightnings s
         \<or> (\<exists>L. ls = (if length (lightnings s) \<ge> 6 then tl (lightnings s @ [L])
                       else lightnings s @ [L])
                \<and> l_points L \<noteq> [] \<and> boltSpawn (rnd s) L))
     \<and> (ps = qs
         \<or> (\<exists>p. ps = (if length qs \<ge> maxParticles then tl (qs @ [p]) else qs @ [p])
                \<and> flareSpawn (rnd s) p))
     \<and> ms = meteors (spawnMeteorTimer now (s\<lparr>lastTime := now\<rparr>))
     \<and> pl = meteorPool (spawnMeteorTimer now (s\<lparr>lastTime := now\<rparr>))"
proof -
  define s1 where "s1 = s\<lparr>lastTime := now\<rparr>"
  obtain k2 ms pl lms where
    e2: "spawnMeteorTimer now s1 = s1\<lparr>rpos := k2, meteors := ms, meteorPool := pl, lastMeteorSpawn := lms\<rparr>"
    and M: "(ms = meteors s1 \<and> pl = meteorPool s1)
         \<or> (length (meteors s1) < maxMeteors
            \<and> (\<exists>m. ms = meteors s1 @ [m] \<and> pl = butlast (meteorPool s1) \<and> meteorSpawn (rnd s1) m))"
    using spawnMeteorTimer_eq [of now s1] by blast
  define s2 where "s2 = s1\<lparr>rpos := k2, meteors := ms, meteorPool := pl, lastMeteorSpawn := lms\<rparr>"
  obtain k3 ls where
    e3: "spawnLightningChance dt s2 = s2\<lparr>rpos := k3, lightnings := ls\<rparr>"
    and L: "ls = lightnings s2
         \<or> (\<exists>L. ls = (if length (lightnings s2) \<ge> 6 then tl (lightnings s2 @ [L])
                       else lightnings s2 @ [L])
                \<and> l_points L \<noteq> [] \<and> boltSpawn (rnd s2) L)"
    using spawnLightningChance_eq [of dt s2] by blast
  define s3 where "s3 = s2\<lparr>rpos := k3, lightnings := ls\<rparr>"
  obtain k4 ht where e4: "heroShake now s3 = s3\<lparr>rpos := k4, heroTransform := ht\<rparr>"
    using heroShake_eq by blast
  define s4 where "s4 = s3\<lparr>rpos := k4, heroTransform := ht\<rparr>"
  obtain ops5 where e5: "drawBlackHole (drawStars now (drawBackground s4)) = s4\<lparr>painted := ops5\<rparr>"
    using backdrop_eq by blast
  define o5 where "o5 = ops5 @ map spec_particle_arc (rev qs)"
  define s5 where "s5 = s4\<lparr>painted := o5, particles := qs\<rparr>"
  have p4: "particles s4 = particles s"
    by (simp add: s4_def s3_def s2_def s1_def)
  have e5': "drawParticles dt (s4\<lparr>painted := ops5\<rparr>) = Inr s5"
    by (subst drawParticles_eq) (simp add: s5_def o5_def qs_def p4)
  have ms5: "meteors s5 = ms" "meteorPool s5 = pl" "lightnings s5 = ls" "rpos s5 = k4"
    by (simp_all add: s5_def s4_def s3_def s2_def s1_def)
  have primed: "list_all (\<lambda>m. m_trail m \<noteq> []) ms"
    using M tr by (auto simp: s1_def meteorSpawn_def)
  have gone: "meteorGone s5 = meteorGone s"
    by (simp add: fun_eq_iff meteorGone_def s5_def s4_def s3_def s2_def s1_def)
  define s6 where "s6 = s5\<lparr>rpos := rpos s5 + 2 * length (meteors s5),
            painted := painted s5
              @ concat (map headOps (rev (map (advanceMeteor dt) (meteors s5)))),
            meteors := filter (\<lambda>m. \<not> meteorGone s5 m) (map (advanceMeteor dt) (meteors s5)),
            meteorPool := meteorPool s5
              @ filter (meteorGone s5) (rev (map (advanceMeteor dt) (meteors s5)))\<rparr>"
  have e6: "drawMeteors dt s5 = Inr s6"
    unfolding s6_def using primed by (intro drawMeteors_eq) (simp add: ms5)
  have ls6: "lightnings s6 = ls" by (simp add: s6_def ms5)
  have pts: "list_all (\<lambda>L. l_points L \<noteq> []) ls"
  proof -
    have l2: "lightnings s2 = lightnings s" by (simp add: s2_def s1_def)
    from L [unfolded l2] show ?thesis
    proof
      assume "ls = lightnings s"
      then show ?thesis using pt by simp
    next
      assume "\<exists>L. ls = (if length (lightnings s) \<ge> 6 then tl (lightnings s @ [L])
                       else lightnings s @ [L])
                \<and> l_points L \<noteq> [] \<and> boltSpawn (rnd s2) L"
      then obtain L where "ls = (if length (lightnings s) \<ge> 6 then tl (lightnings s @ [L])
                       else lightnings s @ [L])" "l_points L \<noteq> []"
        by blast
      then show ?thesis using list_all_capped [OF pt, of L] by simp
    qed
  qed
  obtain ops7 where e7: "drawLightning dt s6 =
     Inr (s6\<lparr>painted := painted s6 @ ops7,
            lightnings := filter (\<lambda>L. \<not> l_age L > l_life L) (map (ageBolt dt) (lightnings s6))\<rparr>)"
    using drawLightning_eq [of s6 dt] pts ls6 by auto
  define s7 where "s7 = s6\<lparr>painted := painted s6 @ ops7,
            lightnings := filter (\<lambda>L. \<not> l_age L > l_life L) (map (ageBolt dt) (lightnings s6))\<rparr>"
  obtain k8 ps where e8: "flare now s7 = s7\<lparr>rpos := k8, particles := ps\<rparr>"
    and P: "ps = particles s7
         \<or> (\<exists>p. ps = (if length (particles s7) \<ge> maxParticles then tl (particles s7 @ [p])
                       else particles s7 @ [p])
                \<and> flareSpawn (rnd s7) p)"
    using flare_eq [of now s7] by blast
  have p7: "particles s7 = qs" "rnd s7 = rnd s"
    by (simp_all add: s7_def s6_def s5_def s4_def s3_def s2_def s1_def)
  have unf: "loop now s = Inr (s7\<lparr>rpos := k8, particles := ps\<rparr>)"
    using run e2 e3 e4 e5 e5' e6 e7 e8
    by (simp add: loop_def Let_def dt_def [symmetric] s1_def [symmetric] s2_def [symmetric]
          s3_def [symmetric] s4_def [symmetric] s7_def [symmetric])
  have "s7\<lparr>rpos := k8, particles := ps\<rparr> =
       s\<lparr>lastTime := now, rpos := k8, lastMeteorSpawn := lms, heroTransform := ht,
              painted := painted s6 @ ops7,
              meteors := filter (\<lambda>m. \<not> meteorGone s m) (map (advanceMeteor dt) ms),
              meteorPool := pl @ filter (meteorGone s) (rev (map (advanceMeteor dt) ms)),
              lightnings := filter (\<lambda>L. \<not> l_age L > l_life L) (map (ageBolt dt) ls),
              particles := ps\<rparr>"
    unfolding s7_def s6_def gone ms5
    by (simp add: s5_def s4_def s3_def s2_def s1_def)
  with unf have "loop now s = Inr (s\<lparr>lastTime := now, rpos := k8, lastMeteorSpawn := lms, heroTransform := ht,
              painted := painted s6 @ ops7,
              meteors := filter (\<lambda>m. \<not> meteorGone s m) (map (advanceMeteor dt) ms),
              meteorPool := pl @ filter (meteorGone s) (rev (map (advanceMeteor dt) ms)),
              lightnings := filter (\<lambda>L. \<not> l_age L > l_life L) (map (ageBolt dt) ls),
              particles := ps\<rparr>)" by simp
  moreover have "(ms = meteors s \<and> pl = meteorPool s)
         \<or> (length (meteors s) < maxMeteors
            \<and> (\<exists>m. ms = meteors s @ [m] \<and> pl = butlast (meteorPool s) \<and> meteorSpawn (rnd s) m))"
  proof -
    have "meteors s1 = meteors s" "meteorPool s1 = meteorPool s" "rnd s1 = rnd s"
      by (simp_all add: s1_def)
    then show ?thesis using M by simp
  qed
  moreover have "ls = lightnings s
         \<or> (\<exists>L. ls = (if length (lightnings s) \<ge> 6 then tl (lightnings s @ [L])
                       else lightnings s @ [L])
                \<and> l_points L \<noteq> [] \<and> boltSpawn (rnd s) L)"
  proof -
    have "lightnings s2 = lightnings s" "rnd s2 = rnd s" by (simp_all add: s2_def s1_def)
    then show ?thesis using L by metis
  qed
  moreover have "ps = qs
         \<or> (\<exists>p. ps = (if length qs \<ge> maxParticles then tl (qs @ [p]) else qs @ [p])
                \<and> flareSpawn (rnd s) p)"
    using P unfolding p7 .
  moreover have "ms = meteors (spawnMeteorTimer now (s\<lparr>lastTime := now\<rparr>))"
    "pl = meteorPool (spawnMeteorTimer now (s\<lparr>lastTime := now\<rparr>))"
    using e2 by (simp_all add: s1_def)
  ultimately show ?thesis by blast
qed

lemma advance_trails:
  "list_all (\<lambda>m. m_trail m \<noteq> [] \<and> length (m_trail m) \<le> maxMeteorTrail) ms \<Longrightarrow>
   list_all (\<lambda>m. m_trail m \<noteq> [] \<and> length (m_trail m) \<le> maxMeteorTrail)
     (map (advanceMeteor dt) ms)"
  by (induction ms) (auto simp: advanceMeteor_primed)

lemma list_all_filter: "list_all P xs \<Longrightarrow> list_all P (filter Q xs)"
  by (induction xs) auto

lemma list_all_weaken: "list_all P xs \<Longrightarrow> (\<And>x. P x \<Longrightarrow> Q x) \<Longrightarrow> list_all Q xs"
  by (induction xs) auto

lemma list_all_butlast: "list_all P xs \<Longrightarrow> list_all P (butlast xs)"
  by (induction xs) auto

lemma length_filter_split:
  "length (filter (\<lambda>x. \<not> P x) xs) + length (filter P (rev xs)) = length xs"
  by (induction xs) auto

lemma loop_eq:
  fixes now :: real and s :: scene
  assumes run: "running s"
    and tr: "list_all (\<lambda>m. m_trail m \<noteq> []) (meteors s)"
    and pt: "list_all (\<lambda>L. l_points L \<noteq> []) (lightnings s)"
  defines "dt \<equiv> min (now - lastTime s) 48"
  defines "qs \<equiv> map (spec_particle_update dt)
                    (filter (\<lambda>p. \<not> spec_particle_removed dt p) (particles s))"
  shows "\<exists>k lms ht ops ms pl ls ps.
     loop now s =
       Inr (s\<lparr>lastTime := now, rpos := k, lastMeteorSpawn := lms, heroTransform := ht,
              painted := ops,
              meteors := filter (\<lambda>m. \<not> meteorGone s m) (map (advanceMeteor dt) ms),
              meteorPool := pl @ filter (meteorGone s) (rev (map (advanceMeteor dt) ms)),
              lightnings := filter (\<lambda>L. \<not> l_age L > l_life L) (map (ageBolt dt) ls),
              particles := ps\<rparr>)
     \<and> ((ms = meteors s \<and> pl = meteorPool s)
         \<or> (length (meteors s) < maxMeteors
            \<and> (\<exists>m. ms = meteors s @ [m] \<and> pl = butlast (meteorPool s) \<and> meteorSpawn (rnd s) m)))
     \<and> (ls = lightnings s
         \<or> (\<exists>L. ls = (if length (lightnings s) \<ge> 6 then tl (lightnings s @ [L])
                       else lightnings s @ [L])
                \<and> l_points L \<noteq> [] \<and> boltSpawn (rnd s) L))
     \<and> (ps = qs
         \<or> (\<exists>p. ps = (if length qs \<ge> maxParticles then tl (qs @ [p]) else qs @ [p])
                \<and> flareSpawn (rnd s) p))"
  using loop_eq_spawn [OF run tr pt, of now] unfolding dt_def qs_def by blast

lemma steady_loop:
  assumes st: "steady s"
  shows "\<exists>s'. loop now s = Inr s' \<and> steady s' \<and> rnd s' = rnd s \<and> stars s' = stars s
           \<and> (unitSource (rnd s) \<and> jagged s \<longrightarrow> jagged s')"
proof (cases "running s")
  case False
  then have "loop now s = Inr s" by (simp add: loop_def)
  then show ?thesis using st by simp
next
  case True
  define dt where "dt = min (now - lastTime s) 48"
  define qs where "qs = map (spec_particle_update dt)
                    (filter (\<lambda>p. \<not> spec_particle_removed dt p) (particles s))"
  define TR where "TR = (\<lambda>m::meteor. m_trail m \<noteq> [] \<and> length (m_trail m) \<le> maxMeteorTrail)"
  have tr: "list_all TR (meteors s)"
    and ptr: "list_all (\<lambda>m. length (m_trail m) \<le> maxMeteorTrail) (meteorPool s)"
    and pt: "list_all (\<lambda>L. l_points L \<noteq> []) (lightnings s)"
    and cap: "length (meteors s) + length (meteorPool s) \<le> maxMeteors"
      "length (particles s) \<le> maxParticles" "length (lightnings s) \<le> 6"
      "length (stars s) = maxStars"
    using st by (simp_all add: steady_def TR_def)
  have tr0: "list_all (\<lambda>m. m_trail m \<noteq> []) (meteors s)"
    using tr by (rule list_all_weaken) (simp add: TR_def)
  obtain k lms ht ops ms pl ls ps where
    eq: "loop now s =
       Inr (s\<lparr>lastTime := now, rpos := k, lastMeteorSpawn := lms, heroTransform := ht,
              painted := ops,
              meteors := filter (\<lambda>m. \<not> meteorGone s m) (map (advanceMeteor dt) ms),
              meteorPool := pl @ filter (meteorGone s) (rev (map (advanceMeteor dt) ms)),
              lightnings := filter (\<lambda>L. \<not> l_age L > l_life L) (map (ageBolt dt) ls),
              particles := ps\<rparr>)"
    and M: "(ms = meteors s \<and> pl = meteorPool s)
         \<or> (length (meteors s) < maxMeteors
            \<and> (\<exists>m. ms = meteors s @ [m] \<and> pl = butlast (meteorPool s) \<and> meteorSpawn (rnd s) m))"
    and L: "ls = lightnings s
         \<or> (\<exists>L. ls = (if length (lightnings s) \<ge> 6 then tl (lightnings s @ [L])
                       else lightnings s @ [L])
                \<and> l_points L \<noteq> [] \<and> boltSpawn (rnd s) L)"
    and P: "ps = qs
         \<or> (\<exists>p. ps = (if length qs \<ge> maxParticles then tl (qs @ [p]) else qs @ [p])
                \<and> flareSpawn (rnd s) p)"
    using loop_eq [OF True tr0 pt, of now] unfolding dt_def qs_def by blast
  have Mlen: "length ms + length pl \<le> maxMeteors" using M cap(1) by auto
  have Mtr: "list_all TR ms"
    using M tr by (auto simp: meteorSpawn_def TR_def maxMeteorTrail_def)
  have Mpl: "list_all (\<lambda>m. length (m_trail m) \<le> maxMeteorTrail) pl"
    using M ptr by (auto intro: list_all_butlast)
  have adv: "list_all TR (map (advanceMeteor dt) ms)"
    using Mtr unfolding TR_def by (rule advance_trails)
  have c1: "length (filter (\<lambda>m. \<not> meteorGone s m) (map (advanceMeteor dt) ms))
          + length (pl @ filter (meteorGone s) (rev (map (advanceMeteor dt) ms))) \<le> maxMeteors"
    using Mlen length_filter_split [of "meteorGone s" "map (advanceMeteor dt) ms"] by simp
  have c2: "list_all TR (filter (\<lambda>m. \<not> meteorGone s m) (map (advanceMeteor dt) ms))"
    using adv by (rule list_all_filter)
  have "list_all TR (rev (map (advanceMeteor dt) ms))" using adv by simp
  then have "list_all TR (filter (meteorGone s) (rev (map (advanceMeteor dt) ms)))"
    by (rule list_all_filter)
  then have "list_all (\<lambda>m. length (m_trail m) \<le> maxMeteorTrail)
      (filter (meteorGone s) (rev (map (advanceMeteor dt) ms)))"
    by (rule list_all_weaken) (simp add: TR_def)
  then have c3: "list_all (\<lambda>m. length (m_trail m) \<le> maxMeteorTrail)
      (pl @ filter (meteorGone s) (rev (map (advanceMeteor dt) ms)))"
    using Mpl by simp
  have qlen: "length qs \<le> maxParticles"
    using cap(2) le_trans [OF length_filter_le] by (simp add: qs_def)
  have c4: "length ps \<le> maxParticles"
    using P qlen length_capped [OF qlen] by auto
  have Llen: "length ls \<le> 6" using L cap(3) length_capped [OF cap(3)] by auto
  have Lpt: "list_all (\<lambda>L. l_points L \<noteq> []) ls"
    using L pt list_all_capped [OF pt] by auto
  have c5: "length (filter (\<lambda>L. \<not> l_age L > l_life L) (map (ageBolt dt) ls)) \<le> 6"
    using Llen le_trans [OF length_filter_le] by simp
  have "list_all (\<lambda>L. l_points L \<noteq> []) (map (ageBolt dt) ls)"
    using Lpt by (induction ls) (auto simp: ageBolt_def)
  then have c6: "list_all (\<lambda>L. l_points L \<noteq> [])
      (filter (\<lambda>L. \<not> l_age L > l_life L) (map (ageBolt dt) ls))"
    by (rule list_all_filter)
  have c7: "unitSource (rnd s) \<and> jagged s \<longrightarrow>
      list_all (\<lambda>L. 5 \<le> length (l_points L) \<and> length (l_points L) \<le> 10)
        (filter (\<lambda>L. \<not> l_age L > l_life L) (map (ageBolt dt) ls))"
  proof
    assume a: "unitSource (rnd s) \<and> jagged s"
    then have j: "list_all (\<lambda>L. 5 \<le> length (l_points L) \<and> length (l_points L) \<le> 10) (lightnings s)"
      by (simp add: jagged_def)
    have "list_all (\<lambda>L. 5 \<le> length (l_points L) \<and> length (l_points L) \<le> 10) ls"
      using L j list_all_capped [OF j] boltSpawn_length a by auto
    then have "list_all (\<lambda>L. 5 \<le> length (l_points L) \<and> length (l_points L) \<le> 10) (map (ageBolt dt) ls)"
      by (induction ls) (auto simp: ageBolt_def)
    then show "list_all (\<lambda>L. 5 \<le> length (l_points L) \<and> length (l_points L) \<le> 10)
        (filter (\<lambda>L. \<not> l_age L > l_life L) (map (ageBolt dt) ls))"
      by (rule list_all_filter)
  qed
  show ?thesis
    unfolding eq using c1 c2 c3 c4 c5 c6 c7 cap(4)
    by (simp add: steady_def jagged_def TR_def)
qed

subsection \<open>The big bang\<close>

lemma newBurstParticle_fst_cong:
  "fst (newBurstParticle (s\<lparr>bigBangTime := b, particles := xs, rpos := k\<rparr>))
     = fst (newBurstParticle (s\<lparr>rpos := k\<rparr>))"
  by (simp add: newBurstParticle_def random_def rand_eq randInt_eq Let_def)

lemma newBurstParticle_fst:
  "fst (newBurstParticle s) =
     \<lparr>p_x = cx s, p_y = cy s,
      p_vx = cos (rnd s (rpos s) * pi * 2) * scaled (rnd s (rpos s + 1)) 80 480 * timeScale,
      p_vy = sin (rnd s (rpos s) * pi * 2) * scaled (rnd s (rpos s + 1)) 80 480 * timeScale,
      p_life = scaled (rnd s (rpos s + 2)) 700 1400, p_age = 0,
      p_size = rnd s (rpos s + 3) * (25 / 10) + 6 / 10,
      p_color = (\<lfloor>scaled (rnd s (rpos s + 4)) 20 61\<rfloor>, \<lfloor>scaled (rnd s (rpos s + 5)) 50 71\<rfloor>)\<rparr>"
  by (simp add: newBurstParticle_def random_def rand_eq randInt_eq Let_def eval_nat_numeral)

lemma triggerBigBang_eq:
  "triggerBigBang t t2 s =
     s\<lparr>bigBangTime := Some t,
       particles := map (\<lambda>i. fst (newBurstParticle (s\<lparr>rpos := rpos s + 6 * i\<rparr>))) [0..<140],
       rpos := rpos s + 840,
       heroShakeUntil := (if heroEl s then t2 + 900 else heroShakeUntil s)\<rparr>"
  by (simp add: triggerBigBang_def triggerBigBang_loop_eq pulseHero_def maxParticles_def
        newBurstParticle_fst_cong Let_def)

subsection \<open>The invariant of a session\<close>

lemma steady_fields:
  assumes "stars s' = stars s" "meteors s' = meteors s" "meteorPool s' = meteorPool s"
    "particles s' = particles s" "lightnings s' = lightnings s"
  shows "steady s' = steady s" "jagged s' = jagged s"
  using assms by (simp_all add: steady_def jagged_def)

lemma steady_resize:
  "steady (resize dpr rw rh iw ih s) = steady s" "jagged (resize dpr rw rh iw ih s) = jagged s"
  "rnd (resize dpr rw rh iw ih s) = rnd s" "stars (resize dpr rw rh iw ih s) = stars s"
  by (simp_all add: resize_def Let_def steady_def jagged_def)

lemma steady_visibilitychange:
  "steady (visibilitychange v t s) = steady s" "jagged (visibilitychange v t s) = jagged s"
  "rnd (visibilitychange v t s) = rnd s" "stars (visibilitychange v t s) = stars s"
  by (simp_all add: visibilitychange_def Let_def steady_def jagged_def)

lemma steady_triggerBigBang:
  "steady s \<Longrightarrow> steady (triggerBigBang t t2 s)"
  "jagged (triggerBigBang t t2 s) = jagged s"
  "rnd (triggerBigBang t t2 s) = rnd s" "stars (triggerBigBang t t2 s) = stars s"
  by (simp_all add: triggerBigBang_eq steady_def jagged_def maxParticles_def)

lemma steady_fire:
  assumes "steady s"
  shows "\<exists>s'. fire e s = Inr s' \<and> steady s' \<and> rnd s' = rnd s \<and> stars s' = stars s
           \<and> (unitSource (rnd s) \<and> jagged s \<longrightarrow> jagged s')"
proof (cases e)
  case (Frame now)
  then show ?thesis using steady_loop [OF assms, of now] by simp
next
  case (BigBang t t2)
  then show ?thesis using assms by (simp add: steady_triggerBigBang)
next
  case (Resize dpr rw rh iw ih)
  then show ?thesis using assms by (simp add: steady_resize)
next
  case (Visibility v t)
  then show ?thesis using assms by (simp add: steady_visibilitychange)
qed

lemma steady_run:
  "steady s \<Longrightarrow>
   \<exists>s'. run es s = Inr s' \<and> steady s' \<and> rnd s' = rnd s \<and> stars s' = stars s
        \<and> (unitSource (rnd s) \<and> jagged s \<longrightarrow> jagged s')"
proof (induction es arbitrary: s)
  case Nil
  then show ?case by simp
next
  case (Cons e es)
  obtain s1 where s1: "fire e s = Inr s1" "steady s1" "rnd s1 = rnd s" "stars s1 = stars s"
    "unitSource (rnd s) \<and> jagged s \<longrightarrow> jagged s1"
    using steady_fire [OF Cons.prems] by blast
  obtain s2 where s2: "run es s1 = Inr s2" "steady s2" "rnd s2 = rnd s1" "stars s2 = stars s1"
    "unitSource (rnd s1) \<and> jagged s1 \<longrightarrow> jagged s2"
    using Cons.IH [OF s1(2)] by blast
  have "run (e # es) s = Inr s2" using s1(1) s2(1) by simp
  then show ?case using s1 s2 by auto
qed

lemma steady_createMeteor:
  assumes "steady s"
  shows "steady (createMeteor s)"
proof (cases "length (meteors s) < maxMeteors")
  case False
  then show ?thesis using assms by (simp add: createMeteor_full)
next
  case True
  obtain k m where km: "createMeteor s =
            s\<lparr>rpos := k, meteors := meteors s @ [m], meteorPool := butlast (meteorPool s)\<rparr>"
    "meteorSpawn (rnd s) m"
    using createMeteor_spawn [OF True] by blast
  have "list_all (\<lambda>m. length (m_trail m) \<le> maxMeteorTrail) (butlast (meteorPool s))"
    using assms by (intro list_all_butlast) (simp add: steady_def)
  moreover have "length (meteors s) + 1 + length (butlast (meteorPool s)) \<le> maxMeteors"
    using assms True by (cases "meteorPool s = []") (auto simp: steady_def)
  ultimately show ?thesis
    using assms km(2) unfolding km(1)
    by (simp add: steady_def meteorSpawn_def maxMeteorTrail_def)
qed

lemma createMeteor_frame:
  "stars (createMeteor s) = stars s" "rnd (createMeteor s) = rnd s"
  "lightnings (createMeteor s) = lightnings s" "width (createMeteor s) = width s"
  "height (createMeteor s) = height s" "particles (createMeteor s) = particles s"
proof -
  have "stars (createMeteor s) = stars s \<and> rnd (createMeteor s) = rnd s
     \<and> lightnings (createMeteor s) = lightnings s \<and> width (createMeteor s) = width s
     \<and> height (createMeteor s) = height s \<and> particles (createMeteor s) = particles s"
  proof (cases "length (meteors s) < maxMeteors")
    case False
    then show ?thesis by (simp add: createMeteor_full)
  next
    case True
    from createMeteor_spawn [OF True] obtain k m where "createMeteor s =
            s\<lparr>rpos := k, meteors := meteors s @ [m], meteorPool := butlast (meteorPool s)\<rparr>"
      by blast
    then show ?thesis by simp
  qed
  then show "stars (createMeteor s) = stars s" "rnd (createMeteor s) = rnd s"
  "lightnings (createMeteor s) = lightnings s" "width (createMeteor s) = width s"
  "height (createMeteor s) = height s" "particles (createMeteor s) = particles s"
    by simp_all
qed

lemma initStars_eq:
  "initStars s =
     s\<lparr>rpos := rpos s + 6 * maxStars,
       stars := map (\<lambda>i. fst (newStar (s\<lparr>rpos := rpos s + 6 * i\<rparr>))) [0..<maxStars]\<rparr>"
  by (simp add: initStars_def initStars_loop_eq newStar_fst_stars)

lemma steady_init:
  "steady (init dpr rw rh iw ih t (initial r hero dpr0 t0))"
  "jagged (init dpr rw rh iw ih t (initial r hero dpr0 t0))"
  "rnd (init dpr rw rh iw ih t (initial r hero dpr0 t0)) = r"
proof -
  define s2 where "s2 = initStars (resize dpr rw rh iw ih (initial r hero dpr0 t0))"
  have s2: "steady s2" "lightnings s2 = []" "rnd s2 = r"
    by (simp_all add: s2_def initStars_eq resize_def initial_def steady_def Let_def)
  have "steady (createMeteor (createMeteor s2))"
    using s2(1) by (intro steady_createMeteor)
  then show "steady (init dpr rw rh iw ih t (initial r hero dpr0 t0))"
    by (simp add: init_def Let_def s2_def [symmetric] steady_def)
  show "jagged (init dpr rw rh iw ih t (initial r hero dpr0 t0))"
    using s2(2) by (simp add: init_def Let_def s2_def [symmetric] jagged_def createMeteor_frame)
  show "rnd (init dpr rw rh iw ih t (initial r hero dpr0 t0)) = r"
    using s2(3) by (simp add: init_def Let_def s2_def [symmetric] createMeteor_frame)
qed

subsection \<open>Meteors stay below the top margin\<close>















lemma createMeteor_running: "running (createMeteor s) = running s"
proof (cases "length (meteors s) < maxMeteors")
  case True
  from createMeteor_spawn [OF this] obtain k m where
    "createMeteor s = s\<lparr>rpos := k, meteors := meteors s @ [m], meteorPool := butlast (meteorPool s)\<rparr>"
    by blast
  then show ?thesis by simp
next
  case False
  then show ?thesis by (simp add: createMeteor_full)
qed

lemma init_running: "running (init dpr rw rh iw ih t (initial r hero dpr0 t0))"
  by (simp add: init_def Let_def createMeteor_running initStars_eq resize_def initial_def)

lemma init_lastTime: "lastTime (init dpr rw rh iw ih t s) = t"
  by (simp add: init_def Let_def)

subsection \<open>The trail rule\<close>

lemma advanceMeteor_spec:
  assumes "m_trail m \<noteq> []"
  shows "advanceMeteor dt m = spec_meteor_update dt m"
proof -
  have "m_trail (integrateMeteor dt m) \<noteq> []" using assms by simp
  then show ?thesis
    by (simp add: advanceMeteor_def pushTrail_def spec_meteor_update_def spec_trail_def Let_def)
qed

lemma map_advance_spec:
  "list_all (\<lambda>m. m_trail m \<noteq> []) ms \<Longrightarrow> map (advanceMeteor dt) ms = map (spec_meteor_update dt) ms"
  by (induction ms) (simp_all add: advanceMeteor_spec)

lemma spawnMeteorTimer_primed:
  assumes "list_all (\<lambda>m. m_trail m \<noteq> []) (meteors s)"
  shows "list_all (\<lambda>m. m_trail m \<noteq> []) (meteors (spawnMeteorTimer now s))"
proof -
  obtain k ms pl lms where
    "spawnMeteorTimer now s = s\<lparr>rpos := k, meteors := ms, meteorPool := pl, lastMeteorSpawn := lms\<rparr>"
    "(ms = meteors s \<and> pl = meteorPool s)
         \<or> (length (meteors s) < maxMeteors
            \<and> (\<exists>m. ms = meteors s @ [m] \<and> pl = butlast (meteorPool s) \<and> meteorSpawn (rnd s) m))"
    using spawnMeteorTimer_eq [of now s] by blast
  then show ?thesis using assms by (auto simp: meteorSpawn_def)
qed

subsection \<open>The last bolt\<close>

lemma last_capped: "last (if length xs \<ge> 6 then tl (xs @ [x]) else xs @ [x]) = x"
proof (cases xs)
  case Nil
  then show ?thesis by simp
next
  case (Cons a ys)
  then show ?thesis by simp
qed

subsection \<open>What a frame does not read\<close>

lemma agree_bind:
  assumes "rel_sum (=) alike x y" "\<And>a b. alike a b \<Longrightarrow> rel_sum (=) alike (f a) (g b)"
  shows "rel_sum (=) alike (case x of Inl e \<Rightarrow> Inl e | Inr a \<Rightarrow> f a)
           (case y of Inl e \<Rightarrow> Inl e | Inr b \<Rightarrow> g b)"
  using assms by (cases x; cases y) simp_all

lemma alike_resize:
  "alike s s' \<Longrightarrow> alike (resize dpr rw rh iw ih s) (resize dpr rw rh iw ih s')"
  by (simp add: alike_def resize_def Let_def)

lemma alike_visibilitychange:
  "alike s s' \<Longrightarrow> alike (visibilitychange v t s) (visibilitychange v t s')"
  by (simp add: alike_def visibilitychange_def Let_def)

lemma alike_triggerBigBang:
  assumes "alike s s'"
  shows "alike (triggerBigBang t t2 s) (triggerBigBang t t2 s')"
proof -
  have "fst (newBurstParticle (s\<lparr>rpos := rpos s + 6 * i\<rparr>))
      = fst (newBurstParticle (s'\<lparr>rpos := rpos s' + 6 * i\<rparr>))" for i
    using assms by (simp add: alike_def newBurstParticle_fst)
  then have "(\<lambda>i. fst (newBurstParticle (s\<lparr>rpos := rpos s + 6 * i\<rparr>)))
      = (\<lambda>i. fst (newBurstParticle (s'\<lparr>rpos := rpos s' + 6 * i\<rparr>)))" by (rule ext)
  then have "particles (triggerBigBang t t2 s) = particles (triggerBigBang t t2 s')"
    by (simp add: triggerBigBang_eq)
  then show ?thesis using assms
    by (simp add: alike_def triggerBigBang_def pulseHero_def Let_def triggerBigBang_loop_eq)
qed

lemma alike_placeMeteor:
  assumes "alike s s'"
  shows "fst (placeMeteor m s) = fst (placeMeteor m s')"
    and "alike (snd (placeMeteor m s)) (snd (placeMeteor m s'))"
  using assms by (simp_all add: alike_def placeMeteor_def rand_eq random_def Let_def)

lemma alike_createMeteor:
  assumes "alike s s'"
  shows "alike (createMeteor s) (createMeteor s')"
proof (cases "length (meteors s) \<ge> maxMeteors")
  case True
  then show ?thesis using assms by (simp add: createMeteor_def alike_def)
next
  case False
  define m0 where "m0 = (if meteorPool s = [] then freshMeteor else last (meteorPool s))"
  define s0 where "s0 = (if meteorPool s = [] then s else s\<lparr>meteorPool := butlast (meteorPool s)\<rparr>)"
  define s0' where "s0' = (if meteorPool s' = [] then s' else s'\<lparr>meteorPool := butlast (meteorPool s')\<rparr>)"
  have a0: "alike s0 s0'" using assms by (simp add: s0_def s0'_def alike_def)
  have sel: "(if meteorPool s = [] then (freshMeteor, s)
              else (last (meteorPool s), s\<lparr>meteorPool := butlast (meteorPool s)\<rparr>)) = (m0, s0)"
    "(if meteorPool s' = [] then (freshMeteor, s')
              else (last (meteorPool s'), s'\<lparr>meteorPool := butlast (meteorPool s')\<rparr>)) = (m0, s0')"
    using assms by (simp_all add: m0_def s0_def s0'_def alike_def)
  obtain m1 s1 where p: "placeMeteor m0 s0 = (m1, s1)" by (cases "placeMeteor m0 s0")
  obtain m1' s1' where p': "placeMeteor m0 s0' = (m1', s1')" by (cases "placeMeteor m0 s0'")
  have e: "m1' = m1" "alike s1 s1'"
    using alike_placeMeteor [OF a0, of m0] by (simp_all add: p p')
  have f: "length (meteors s') < maxMeteors" using False assms by (simp add: alike_def)
  show ?thesis
    using False f e(2)
    by (simp add: createMeteor_def sel p p' e(1) rand_eq randInt_eq Let_def alike_def)
qed

lemma alike_rpos: "alike s s' \<Longrightarrow> alike (s\<lparr>rpos := k\<rparr>) (s'\<lparr>rpos := k\<rparr>)"
  by (simp add: alike_def)

lemma alike_spawnMeteorTimer:
  assumes "alike s s'"
  shows "alike (spawnMeteorTimer now s) (spawnMeteorTimer now s')"
proof -
  have a: "alike (s\<lparr>rpos := Suc (rpos s)\<rparr>) (s'\<lparr>rpos := Suc (rpos s')\<rparr>)"
    using assms by (simp add: alike_def)
  have c: "alike ((createMeteor (s\<lparr>rpos := Suc (rpos s)\<rparr>))\<lparr>lastMeteorSpawn := now\<rparr>)
                 ((createMeteor (s'\<lparr>rpos := Suc (rpos s')\<rparr>))\<lparr>lastMeteorSpawn := now\<rparr>)"
    using alike_createMeteor [OF a] by (simp add: alike_def)
  have r: "rnd s (rpos s) = rnd s' (rpos s')" "lastMeteorSpawn s = lastMeteorSpawn s'"
    using assms by (simp_all add: alike_def)
  show ?thesis using a c by (simp add: spawnMeteorTimer_def rand_eq r)
qed

lemma alike_spawnLightning_loop:
  "alike s s' \<Longrightarrow>
   fst (spawnLightning_loop n step lx ly pts s) = fst (spawnLightning_loop n step lx ly pts s')
   \<and> alike (snd (spawnLightning_loop n step lx ly pts s)) (snd (spawnLightning_loop n step lx ly pts s'))"
proof (induction n arbitrary: lx ly pts s s')
  case 0
  then show ?case by simp
next
  case (Suc n)
  have r: "rnd s = rnd s'" "rpos s = rpos s'" using Suc.prems by (simp_all add: alike_def)
  have a: "alike (s\<lparr>rpos := Suc (Suc (rpos s'))\<rparr>) (s'\<lparr>rpos := Suc (Suc (rpos s'))\<rparr>)"
    using Suc.prems by (simp add: alike_def)
  show ?case using Suc.IH [OF a] by (simp add: rand_eq Let_def r)
qed

lemma alike_spawnLightning:
  assumes "alike s s'"
  shows "alike (spawnLightning s) (spawnLightning s')"
proof -
  have r: "rnd s = rnd s'" "rpos s = rpos s'" "width s = width s'" "height s = height s'"
    using assms by (simp_all add: alike_def)
  define startX where "startX = scaled (rnd s' (rpos s')) 0 (width s')"
  define startY where "startY = scaled (rnd s' (Suc (rpos s'))) 0 (height s' / 5)"
  define endY where "endY = scaled (rnd s' (Suc (Suc (rpos s')))) (height s' / 5) (height s' * 4 / 5)"
  define segments where "segments = \<lfloor>scaled (rnd s' (Suc (Suc (Suc (rpos s'))))) 4 9\<rfloor>"
  define s4 where "s4 = s\<lparr>rpos := Suc (Suc (Suc (Suc (rpos s'))))\<rparr>"
  define s4' where "s4' = s'\<lparr>rpos := Suc (Suc (Suc (Suc (rpos s'))))\<rparr>"
  have a: "alike s4 s4'" using assms by (simp add: s4_def s4'_def alike_def)
  obtain pts s5 where
    lp: "spawnLightning_loop (nat segments) ((endY - startY) / of_int segments)
           startX startY [\<lparr>pt_x = startX, pt_y = startY\<rparr>] s4 = (pts, s5)"
    by (cases "spawnLightning_loop (nat segments) ((endY - startY) / of_int segments)
           startX startY [\<lparr>pt_x = startX, pt_y = startY\<rparr>] s4")
  obtain pts' s5' where
    lp': "spawnLightning_loop (nat segments) ((endY - startY) / of_int segments)
           startX startY [\<lparr>pt_x = startX, pt_y = startY\<rparr>] s4' = (pts', s5')"
    by (cases "spawnLightning_loop (nat segments) ((endY - startY) / of_int segments)
           startX startY [\<lparr>pt_x = startX, pt_y = startY\<rparr>] s4'")
  have e: "pts' = pts" "alike s5 s5'"
    using alike_spawnLightning_loop [OF a, of "nat segments" "(endY - startY) / of_int segments"
        startX startY "[\<lparr>pt_x = startX, pt_y = startY\<rparr>]"]
    by (simp_all add: lp lp')
  define fin where "fin = (\<lambda>z::scene. let s7 = z\<lparr>rpos := Suc (rpos z),
        lightnings := lightnings z @
          [\<lparr>l_points = pts, l_age = 0, l_life = scaled (rnd z (rpos z)) 120 260, l_alpha = 1\<rparr>]\<rparr>
      in if length (lightnings s7) > 6 then s7\<lparr>lightnings := tl (lightnings s7)\<rparr> else s7)"
  have u: "spawnLightning s = fin s5"
    using lp
    by (simp add: spawnLightning_def rand_eq randInt_eq Let_def r startX_def startY_def endY_def
          segments_def s4_def fin_def)
  have u': "spawnLightning s' = fin s5'"
    using lp'
    by (simp add: spawnLightning_def rand_eq randInt_eq Let_def startX_def startY_def endY_def
          segments_def s4'_def fin_def e(1))
  show ?thesis unfolding u u' using e(2) by (simp add: fin_def Let_def alike_def)
qed

lemma alike_spawnLightningChance:
  assumes "alike s s'"
  shows "alike (spawnLightningChance dt s) (spawnLightningChance dt s')"
proof -
  have a: "alike (s\<lparr>rpos := Suc (rpos s)\<rparr>) (s'\<lparr>rpos := Suc (rpos s')\<rparr>)"
    using assms by (simp add: alike_def)
  have r: "rnd s (rpos s) = rnd s' (rpos s')" using assms by (simp add: alike_def)
  show ?thesis using a alike_spawnLightning [OF a]
    by (simp add: spawnLightningChance_def random_def r)
qed

lemma alike_heroShake:
  "alike s s' \<Longrightarrow> alike (heroShake now s) (heroShake now s')"
  by (simp add: alike_def heroShake_def rand_eq Let_def)

lemma alike_backdrop:
  "alike s s' \<Longrightarrow> alike (drawBlackHole (drawStars now (drawBackground s)))
                      (drawBlackHole (drawStars now (drawBackground s')))"
  by (simp add: alike_def drawBlackHole_def drawStars_def drawBackground_def Let_def)

lemma alike_drawParticles:
  "alike s s' \<Longrightarrow> rel_sum (=) alike (drawParticles dt s) (drawParticles dt s')"
  by (simp add: drawParticles_eq alike_def)

lemma alike_drawMeteor:
  assumes "alike s s'"
  shows "rel_sum (=) alike (drawMeteor dt i s) (drawMeteor dt i s')"
proof -
  have r: "meteors s = meteors s'" "width s = width s'" "height s = height s'"
    using assms by (simp_all add: alike_def)
  show ?thesis
  proof (cases "pushTrail (integrateMeteor dt (meteors s' ! i))")
    case (Inl e)
    then show ?thesis by (simp add: drawMeteor_def r)
  next
    case (Inr m)
    then show ?thesis using assms
      by (simp add: drawMeteor_def r randInt_eq Let_def meteorGone_def alike_def)
  qed
qed

lemma alike_drawMeteors_from:
  "alike s s' \<Longrightarrow> rel_sum (=) alike (drawMeteors_from dt i s) (drawMeteors_from dt i s')"
proof (induction i arbitrary: s s')
  case 0
  then show ?case by simp
next
  case (Suc i)
  show ?case
    unfolding drawMeteors_from.simps
    by (rule agree_bind [OF alike_drawMeteor [OF Suc.prems]]) (rule Suc.IH)
qed

lemma alike_drawMeteors:
  assumes "alike s s'"
  shows "rel_sum (=) alike (drawMeteors dt s) (drawMeteors dt s')"
proof -
  have r: "meteors s = meteors s'" using assms by (simp add: alike_def)
  show ?thesis using assms alike_drawMeteors_from [OF assms]
    by (simp add: drawMeteors_def r)
qed

lemma alike_drawBolt:
  assumes "alike s s'"
  shows "rel_sum (=) alike (drawBolt dt lw i s) (drawBolt dt lw i s')"
proof -
  have r: "lightnings s = lightnings s'" using assms by (simp add: alike_def)
  show ?thesis using assms
    by (simp add: drawBolt_def r Let_def) (simp add: alike_def)
qed

lemma alike_drawLightning_from:
  "alike s s' \<Longrightarrow> rel_sum (=) alike (drawLightning_from dt lw i s) (drawLightning_from dt lw i s')"
proof (induction i arbitrary: s s' lw)
  case 0
  then show ?case by simp
next
  case (Suc i)
  show ?case
    unfolding drawLightning_from.simps
    by (rule agree_bind [OF alike_drawBolt [OF Suc.prems]]) (rule Suc.IH)
qed

lemma alike_drawLightning:
  assumes "alike s s'"
  shows "rel_sum (=) alike (drawLightning dt s) (drawLightning dt s')"
proof -
  have r: "lightnings s = lightnings s'" using assms by (simp add: alike_def)
  show ?thesis using assms alike_drawLightning_from [OF assms]
    by (simp add: drawLightning_def r)
qed

lemma alike_newFlare:
  assumes "alike s s'"
  shows "fst (newFlare s) = fst (newFlare s')" "alike (snd (newFlare s)) (snd (newFlare s'))"
  using assms by (simp_all add: alike_def newFlare_def rand_eq randInt_eq Let_def)

lemma alike_flare:
  assumes "alike s s'"
  shows "alike (flare now s) (flare now s')"
proof -
  have r: "rnd s (rpos s) = rnd s' (rpos s')" "bigBangTime s = bigBangTime s'"
    using assms by (simp_all add: alike_def)
  have a: "alike (s\<lparr>rpos := Suc (rpos s)\<rparr>) (s'\<lparr>rpos := Suc (rpos s')\<rparr>)"
    using assms by (simp add: alike_def)
  note nf = alike_newFlare [OF a]
  show ?thesis
    using a nf
    by (cases "bigBangTime s'")
       (simp_all add: flare_def r random_def case_prod_beta Let_def, auto simp: alike_def)
qed

lemma alike_loop:
  assumes "alike s s'"
  shows "rel_sum (=) alike (loop now s) (loop now s')"
proof (cases "running s")
  case False
  then show ?thesis using assms by (simp add: loop_def alike_def)
next
  case True
  then have t: "running s'" using assms by (simp add: alike_def)
  have l: "lastTime s = lastTime s'" using assms by (simp add: alike_def)
  define dt where "dt = min (now - lastTime s') 48"
  have a1: "alike (s\<lparr>lastTime := now\<rparr>) (s'\<lparr>lastTime := now\<rparr>)"
    using assms by (simp add: alike_def)
  note a4 = alike_heroShake [OF alike_spawnLightningChance [OF alike_spawnMeteorTimer [OF a1]]]
  note a5 = alike_drawParticles [OF alike_backdrop [OF a4]]
  show ?thesis
    unfolding loop_def Let_def l dt_def [symmetric] using True t
    apply simp
    apply (rule agree_bind [OF a5])
    apply (rule agree_bind [OF alike_drawMeteors])
     apply assumption
    apply (rule agree_bind [OF alike_drawLightning])
     apply assumption
    apply (simp add: alike_flare)
    done
qed

lemma alike_fire:
  assumes "alike s s'"
  shows "rel_sum (=) alike (fire e s) (fire e s')"
  using assms
  by (cases e) (simp_all add: alike_loop alike_triggerBigBang alike_resize alike_visibilitychange)

lemma alike_run:
  "alike s s' \<Longrightarrow> rel_sum (=) alike (run es s) (run es s')"
proof (induction es arbitrary: s s')
  case Nil
  then show ?case by simp
next
  case (Cons e es)
  show ?case
    unfolding run.simps
    by (rule agree_bind [OF alike_fire [OF Cons.prems]]) (rule Cons.IH)
qed

lemma createMeteor_clock:
  "lastMeteorSpawn (createMeteor s) = lastMeteorSpawn s"
  "length (meteors s) < maxMeteors \<Longrightarrow> length (meteors (createMeteor s)) = Suc (length (meteors s))"
  "length (meteors s) < maxMeteors \<Longrightarrow> meteorPool (createMeteor s) = butlast (meteorPool s)"
proof -
  show "lastMeteorSpawn (createMeteor s) = lastMeteorSpawn s"
  proof (cases "length (meteors s) < maxMeteors")
    case True
    from createMeteor_spawn [OF this] obtain k m where
      "createMeteor s = s\<lparr>rpos := k, meteors := meteors s @ [m], meteorPool := butlast (meteorPool s)\<rparr>"
      by blast
    then show ?thesis by simp
  next
    case False
    then show ?thesis by (simp add: createMeteor_full)
  qed
next
  assume "length (meteors s) < maxMeteors"
  from createMeteor_spawn [OF this] obtain k m where
    "createMeteor s = s\<lparr>rpos := k, meteors := meteors s @ [m], meteorPool := butlast (meteorPool s)\<rparr>"
    by blast
  then show "length (meteors (createMeteor s)) = Suc (length (meteors s))" by simp
next
  assume "length (meteors s) < maxMeteors"
  from createMeteor_spawn [OF this] obtain k m where
    "createMeteor s = s\<lparr>rpos := k, meteors := meteors s @ [m], meteorPool := butlast (meteorPool s)\<rparr>"
    by blast
  then show "meteorPool (createMeteor s) = butlast (meteorPool s)" by simp
qed

lemma init_meteors:
  "length (meteors (init dpr rw rh iw ih t (initial r hero dpr0 t0))) = 2"
  "meteorPool (init dpr rw rh iw ih t (initial r hero dpr0 t0)) = []"
  "lastMeteorSpawn (init dpr rw rh iw ih t (initial r hero dpr0 t0)) = 0"
proof -
  define s2 where "s2 = initStars (resize dpr rw rh iw ih (initial r hero dpr0 t0))"
  have s2: "meteors s2 = []" "meteorPool s2 = []" "lastMeteorSpawn s2 = 0"
    by (simp_all add: s2_def initStars_eq resize_def initial_def Let_def)
  have a: "length (meteors (createMeteor s2)) = 1" "meteorPool (createMeteor s2) = []"
    using s2 by (simp_all add: createMeteor_clock maxMeteors_def)
  have b: "length (meteors (createMeteor (createMeteor s2))) = 2"
    "meteorPool (createMeteor (createMeteor s2)) = []"
    using a by (simp_all add: createMeteor_clock maxMeteors_def)
  show "length (meteors (init dpr rw rh iw ih t (initial r hero dpr0 t0))) = 2"
    "meteorPool (init dpr rw rh iw ih t (initial r hero dpr0 t0)) = []"
    "lastMeteorSpawn (init dpr rw rh iw ih t (initial r hero dpr0 t0)) = 0"
    using b s2(3) by (simp_all add: init_def Let_def s2_def [symmetric] createMeteor_clock)
qed

lemma loop_census:
  assumes "running s" "steady s"
  shows "\<not> isl (loop now s)"
    and "length (meteors (projr (loop now s))) + length (meteorPool (projr (loop now s)))
       = length (meteors (spawnMeteorTimer now (s\<lparr>lastTime := now\<rparr>)))
       + length (meteorPool (spawnMeteorTimer now (s\<lparr>lastTime := now\<rparr>)))"
proof -
  define dt where "dt = min (now - lastTime s) 48"
  have tr0: "list_all (\<lambda>m. m_trail m \<noteq> []) (meteors s)"
    and pt: "list_all (\<lambda>L. l_points L \<noteq> []) (lightnings s)"
    using assms(2) by (simp_all add: steady_def list_all_iff)
  obtain k lms ht ops ms pl ls ps where
    eq: "loop now s =
       Inr (s\<lparr>lastTime := now, rpos := k, lastMeteorSpawn := lms, heroTransform := ht,
              painted := ops,
              meteors := filter (\<lambda>m. \<not> meteorGone s m) (map (advanceMeteor dt) ms),
              meteorPool := pl @ filter (meteorGone s) (rev (map (advanceMeteor dt) ms)),
              lightnings := filter (\<lambda>L. \<not> l_age L > l_life L) (map (ageBolt dt) ls),
              particles := ps\<rparr>)"
    and m: "ms = meteors (spawnMeteorTimer now (s\<lparr>lastTime := now\<rparr>))"
      "pl = meteorPool (spawnMeteorTimer now (s\<lparr>lastTime := now\<rparr>))"
    using loop_eq_spawn [OF assms(1) tr0 pt, of now] unfolding dt_def by blast
  show "\<not> isl (loop now s)" unfolding eq by simp
  show "length (meteors (projr (loop now s))) + length (meteorPool (projr (loop now s)))
       = length (meteors (spawnMeteorTimer now (s\<lparr>lastTime := now\<rparr>)))
       + length (meteorPool (spawnMeteorTimer now (s\<lparr>lastTime := now\<rparr>)))"
    unfolding eq m [symmetric]
    using length_filter_split [of "meteorGone s" "map (advanceMeteor dt) ms"] by simp
qed

lemma spawnMeteorTimer_unf:
  "spawnMeteorTimer now s =
     (if now - lastMeteorSpawn s > scaled (rnd s (rpos s)) 200 meteorSpawnInterval
      then (createMeteor (s\<lparr>rpos := Suc (rpos s)\<rparr>))\<lparr>lastMeteorSpawn := now\<rparr>
      else s\<lparr>rpos := Suc (rpos s)\<rparr>)"
  by (simp add: spawnMeteorTimer_def rand_eq)

subsection \<open>The star fields\<close>

lemma clamp_range: "a \<le> b \<Longrightarrow> a \<le> clamp v a b \<and> clamp v a b \<le> b"
  by (auto simp: clamp_def)

lemma starAlpha_range: "5 / 100 \<le> starAlpha t st \<and> starAlpha t st \<le> 1"
  unfolding starAlpha_def Let_def by (rule clamp_range) simp

lemma drawStars_opacity:
  "list_all (\<lambda>op. 0 \<le> opacity op \<and> opacity op \<le> 1) (painted s) \<Longrightarrow>
   list_all (\<lambda>op. 0 \<le> opacity op \<and> opacity op \<le> 1) (painted (drawStars t s))"
proof -
  have "0 \<le> starAlpha t st \<and> starAlpha t st \<le> 1" for st
    using starAlpha_range [of t st] by simp
  then show "list_all (\<lambda>op. 0 \<le> opacity op \<and> opacity op \<le> 1) (painted s) \<Longrightarrow>
   list_all (\<lambda>op. 0 \<le> opacity op \<and> opacity op \<le> 1) (painted (drawStars t s))"
    by (simp add: drawStars_def list_all_iff Let_def) auto
qed

lemma newStar_bounds:
  assumes "unitSource (rnd s)" "0 < width s" "0 < height s"
  shows "0 \<le> s_x (fst (newStar s)) \<and> s_x (fst (newStar s)) < width s
       \<and> 0 \<le> s_y (fst (newStar s)) \<and> s_y (fst (newStar s)) < height s"
proof -
  have r: "\<And>k. 0 \<le> rnd s k" "\<And>k. rnd s k < 1" using assms(1) by (auto simp: unitSource_def)
  have "rnd s (rpos s) * width s < 1 * width s"
    using r(2) assms(2) by (intro mult_strict_right_mono) auto
  moreover have "rnd s (Suc (rpos s)) * height s < 1 * height s"
    using r(2) assms(3) by (intro mult_strict_right_mono) auto
  ultimately show ?thesis
    using r(1) assms(2,3) by (simp add: newStar_def random_def)
qed

lemma init_stars:
  "stars (init dpr rw rh iw ih t s) = stars (initStars (resize dpr rw rh iw ih s))"
  "width (init dpr rw rh iw ih t s) = width (resize dpr rw rh iw ih s)"
  "height (init dpr rw rh iw ih t s) = height (resize dpr rw rh iw ih s)"
  by (simp_all add: init_def Let_def createMeteor_frame initStars_eq)

lemma init_stars_bounds:
  assumes "unitSource (rnd s)"
  shows "list_all (\<lambda>st. 0 \<le> s_x st \<and> s_x st < width (init dpr rw rh iw ih t s)
                      \<and> 0 \<le> s_y st \<and> s_y st < height (init dpr rw rh iw ih t s))
           (stars (init dpr rw rh iw ih t s))"
proof -
  define s1 where "s1 = resize dpr rw rh iw ih s"
  have w: "0 < width s1" "0 < height s1" "unitSource (rnd s1)"
    using assms by (auto simp: s1_def resize_def Let_def max_def)
  have "0 \<le> s_x (fst (newStar (s1\<lparr>rpos := k\<rparr>))) \<and> s_x (fst (newStar (s1\<lparr>rpos := k\<rparr>))) < width s1
       \<and> 0 \<le> s_y (fst (newStar (s1\<lparr>rpos := k\<rparr>))) \<and> s_y (fst (newStar (s1\<lparr>rpos := k\<rparr>))) < height s1" for k
    using newStar_bounds [of "s1\<lparr>rpos := k\<rparr>"] w by simp
  then show ?thesis
    unfolding init_stars s1_def [symmetric] by (simp add: initStars_eq list_all_iff)
qed

lemma pg_drawStar_eq:
  assumes "i < length (pg_stars g)"
  shows "pg_drawStar i g =
     g\<lparr>pg_painted := pg_painted g
          @ [Arc (d_x (pg_stars g ! i)) (d_y (pg_stars g ! i)) (d_r (pg_stars g ! i))
               (d_alpha (pg_stars g ! i))],
       pg_rpos := Suc (pg_rpos g),
       pg_stars := (pg_stars g)[i := driftStar (pg_width g) (pg_height g) (pg_rnd g (pg_rpos g))
                                     (pg_stars g ! i)]\<rparr>"
proof -
  obtain x y r a dx dy where d: "pg_stars g ! i = \<lparr>d_x = x, d_y = y, d_r = r, d_alpha = a, d_dx = dx, d_dy = dy\<rparr>"
    by (cases "pg_stars g ! i") auto
  show ?thesis
    unfolding pg_drawStar_def pg_random_def driftStar_def Let_def d
    by simp
qed


lemma pg_drawStars_upto:
  "n \<le> length (pg_stars g) \<Longrightarrow>
   fold pg_drawStar [0..<n] g =
     g\<lparr>pg_painted := pg_painted g
          @ map (\<lambda>d. Arc (d_x d) (d_y d) (d_r d) (d_alpha d)) (take n (pg_stars g)),
       pg_rpos := pg_rpos g + n,
       pg_stars := map (\<lambda>i. driftStar (pg_width g) (pg_height g) (pg_rnd g (pg_rpos g + i))
                                (pg_stars g ! i)) [0..<n]
                   @ drop n (pg_stars g)\<rparr>"
proof (induction n)
  case 0
  then show ?case by simp
next
  case (Suc n)
  then have n: "n < length (pg_stars g)" by simp
  have dn: "drop n (pg_stars g) = pg_stars g ! n # drop (Suc n) (pg_stars g)"
    using n by (simp add: Cons_nth_drop_Suc)
  have nth: "(map (\<lambda>i. driftStar (pg_width g) (pg_height g) (pg_rnd g (pg_rpos g + i))
                                (pg_stars g ! i)) [0..<n]
                   @ drop n (pg_stars g)) ! n = pg_stars g ! n"
    by (simp add: nth_append dn)
  have upd: "(map (\<lambda>i. driftStar (pg_width g) (pg_height g) (pg_rnd g (pg_rpos g + i))
                                (pg_stars g ! i)) [0..<n]
                   @ drop n (pg_stars g))[n := v]
      = map (\<lambda>i. driftStar (pg_width g) (pg_height g) (pg_rnd g (pg_rpos g + i))
                                (pg_stars g ! i)) [0..<n] @ v # drop (Suc n) (pg_stars g)" for v
    by (simp add: list_update_append dn)
  show ?case
    using n Suc.IH
    by (simp add: pg_drawStar_eq nth upd take_Suc_conv_app_nth)
qed

lemma pg_drawStars_eq:
  "pg_drawStars g =
     g\<lparr>pg_painted := pg_painted g
          @ map (\<lambda>d. Arc (d_x d) (d_y d) (d_r d) (d_alpha d)) (pg_stars g),
       pg_rpos := pg_rpos g + length (pg_stars g),
       pg_stars := map (\<lambda>i. driftStar (pg_width g) (pg_height g) (pg_rnd g (pg_rpos g + i))
                                (pg_stars g ! i)) [0..<length (pg_stars g)]\<rparr>"
  by (simp add: pg_drawStars_def pg_drawStars_upto)

lemma driftStar_range:
  "0 \<le> d_alpha (driftStar w h r d) \<and> d_alpha (driftStar w h r d) \<le> 1"
  "0 \<le> w \<Longrightarrow> 0 \<le> d_x (driftStar w h r d) \<and> d_x (driftStar w h r d) \<le> w"
  "0 \<le> h \<Longrightarrow> 0 \<le> d_y (driftStar w h r d) \<and> d_y (driftStar w h r d) \<le> h"
  by (auto simp: driftStar_def Let_def)

lemma loop_surface:
  assumes "steady s"
  shows "\<exists>s'. loop now s = Inr s' \<and> stars s' = stars s \<and> width s' = width s
            \<and> height s' = height s"
proof (cases "running s")
  case False
  then show ?thesis by (simp add: loop_def)
next
  case True
  have "list_all (\<lambda>m. m_trail m \<noteq> [] \<and> length (m_trail m) \<le> maxMeteorTrail) (meteors s)"
    using assms by (simp add: steady_def)
  then have tr: "list_all (\<lambda>m. m_trail m \<noteq> []) (meteors s)"
    by (rule list_all_weaken) simp
  have pt: "list_all (\<lambda>L. l_points L \<noteq> []) (lightnings s)"
    using assms by (simp add: steady_def)
  from loop_eq [OF True tr pt, of now] obtain s' k lms ht ops ms pl ls ps where
    "loop now s = Inr s'"
    "s' = s\<lparr>lastTime := now, rpos := k, lastMeteorSpawn := lms, heroTransform := ht,
              painted := ops, meteors := ms, meteorPool := pl, lightnings := ls, particles := ps\<rparr>"
    by blast
  then show ?thesis by simp
qed

lemma newDrifter_eq:
  "snd (newDrifter g) = g\<lparr>pg_rpos := pg_rpos g + 6\<rparr>"
  "d_alpha (fst (newDrifter g)) = pg_rnd g (Suc (Suc (Suc (pg_rpos g))))"
  by (simp_all add: newDrifter_def pg_random_def)

lemma pg_init_loop_alpha:
  "unitSource (pg_rnd g) \<Longrightarrow> list_all (\<lambda>d. 0 \<le> d_alpha d \<and> d_alpha d \<le> 1) (pg_stars g) \<Longrightarrow>
   list_all (\<lambda>d. 0 \<le> d_alpha d \<and> d_alpha d \<le> 1) (pg_stars (pg_init_loop n g))"
proof (induction n arbitrary: g)
  case 0
  then show ?case by simp
next
  case (Suc n)
  obtain d where d: "newDrifter g = (d, g\<lparr>pg_rpos := pg_rpos g + 6\<rparr>)"
    "d_alpha d = pg_rnd g (Suc (Suc (Suc (pg_rpos g))))"
    using newDrifter_eq [of g] by (cases "newDrifter g") simp
  have "0 \<le> d_alpha d \<and> d_alpha d \<le> 1"
    using Suc.prems(1) d(2) by (auto simp: unitSource_def less_imp_le)
  then show ?case
    using Suc.prems by (simp add: d(1) Suc.IH)
qed

lemma animate_stars:
  "pg_stars (animate g) =
     map (\<lambda>i. driftStar (pg_width g) (pg_height g) (pg_rnd g (pg_rpos g + i)) (pg_stars g ! i))
       [0..<length (pg_stars g)]"
  "pg_width (animate g) = pg_width g" "pg_height (animate g) = pg_height g"
  by (simp_all add: animate_def pg_drawStars_eq pg_drawBlackHole_def pg_drawExplosion_def Let_def)

lemma animate_painted:
  "\<exists>ops. pg_painted (animate g)
      = map (\<lambda>d. Arc (d_x d) (d_y d) (d_r d) (d_alpha d)) (pg_stars g) @ ops
    \<and> list_all (\<lambda>op. opacity op = 1) ops"
proof -
  let ?arcs = "map (\<lambda>d. Arc (d_x d) (d_y d) (d_r d) (d_alpha d)) (pg_stars g)"
  consider (a) "timer g + 1 < 300" | (b) "\<not> timer g + 1 < 300" "timer g + 1 < 420"
    | (c) "\<not> timer g + 1 < 420" "timer g + 1 < 720" | (d) "\<not> timer g + 1 < 720"
    by linarith
  then show ?thesis
  proof cases
    case a
    then have "pg_painted (animate g) = ?arcs
        @ [Arc (pg_width g / 2) (pg_height g / 2) (min (blackHoleRadius g + 5 / 10) 80) 1]"
      by (simp add: animate_def pg_drawStars_eq pg_drawBlackHole_def Let_def)
    then show ?thesis by simp
  next
    case b
    then have "pg_painted (animate g) = ?arcs @ [Arc (pg_width g / 2) (pg_height g / 2) 300 1]"
      by (simp add: animate_def pg_drawStars_eq pg_drawExplosion_def Let_def)
    then show ?thesis by simp
  next
    case c
    then have "pg_painted (animate g) = ?arcs
        @ [Arc (pg_width g / 2) (pg_height g / 2) (min (blackHoleRadius g + 3 / 10) 100) 1]"
      by (simp add: animate_def pg_drawStars_eq pg_drawBlackHole_def Let_def)
    then show ?thesis by simp
  next
    case d
    then have "pg_painted (animate g) = ?arcs @ []"
      by (simp add: animate_def pg_drawStars_eq Let_def)
    then show ?thesis by (intro exI [of _ "[]"]) simp
  qed
qed

lemma pg_fire_alpha:
  assumes "list_all (\<lambda>d. 0 \<le> d_alpha d \<and> d_alpha d \<le> 1) (pg_stars g)"
  shows "list_all (\<lambda>d. 0 \<le> d_alpha d \<and> d_alpha d \<le> 1) (pg_stars (pg_fire e g))"
proof (cases e)
  case PgFrame
  then show ?thesis
    by (simp add: animate_stars list_all_iff driftStar_range)
next
  case (PgResize w h)
  then show ?thesis using assms by (simp add: pg_resize_def)
qed

lemma pg_run_alpha:
  "list_all (\<lambda>d. 0 \<le> d_alpha d \<and> d_alpha d \<le> 1) (pg_stars g) \<Longrightarrow>
   list_all (\<lambda>d. 0 \<le> d_alpha d \<and> d_alpha d \<le> 1) (pg_stars (pg_run es g))"
  unfolding pg_run_def by (induction es arbitrary: g) (simp_all add: pg_fire_alpha)

lemma pg_init_alpha:
  assumes "unitSource r"
  shows "list_all (\<lambda>d. 0 \<le> d_alpha d \<and> d_alpha d \<le> 1) (pg_stars (pg_init r w h))"
  unfolding pg_init_def using assms by (intro pg_init_loop_alpha) simp_all

section \<open>Resource bounds\<close>

text \<open>
  C1. Whatever frames, bursts, resizes and visibility changes follow \<open>init\<close>, and
  whatever the random source returns, the session never stops with an error and every
  pool respects its ceiling: at most \<open>maxMeteors\<close> (6) live meteors, at most
  \<open>maxParticles\<close> (180) particles, at most 6 lightning bolts, exactly \<open>maxStars\<close> stars,
  and live meteors plus recycle pool together at most \<open>maxMeteors\<close> meteor objects.
\<close>

theorem pools_bounded:
  "\<exists>s. run es (init dpr rw rh iw ih t (initial r hero dpr0 t0)) = Inr s
       \<and> length (meteors s) \<le> maxMeteors \<and> maxMeteors = 6
       \<and> length (particles s) \<le> maxParticles \<and> maxParticles = 180
       \<and> length (lightnings s) \<le> 6
       \<and> length (stars s) = maxStars
       \<and> length (meteors s) + length (meteorPool s) \<le> maxMeteors"
proof -
  obtain s where "run es (init dpr rw rh iw ih t (initial r hero dpr0 t0)) = Inr s" "steady s"
    using steady_run [OF steady_init(1)] by blast
  then show ?thesis
    by (auto simp: steady_def maxMeteors_def maxParticles_def)
qed

section \<open>Ages and expiry\<close>

text \<open>
  C2. A frame at a time \<open>now\<close> not before the last one, in a running scene whose
  trails and paths are primed, with a random source in the unit interval. The
  elapsed time \<open>dt\<close> (at most 48) is not negative. Every particle, meteor and bolt
  left after the frame either was there before the frame and is older by \<open>dt\<close>, or
  was spawned in this frame (a flare particle of age 0; a meteor or a bolt of age
  \<open>dt\<close>). No entity left after the frame has an age above its life, so none such
  is there when the next frame starts.
\<close>

theorem ages_advance:
  fixes now :: real and s :: scene
  assumes "running s" "lastTime s \<le> now" "unitSource (rnd s)"
    "list_all (\<lambda>m. m_trail m \<noteq> []) (meteors s)"
    "list_all (\<lambda>L. l_points L \<noteq> []) (lightnings s)"
  defines "dt \<equiv> min (now - lastTime s) 48"
  shows "\<exists>s'. loop now s = Inr s' \<and> 0 \<le> dt
     \<and> (\<forall>p' \<in> set (particles s').
           ((\<exists>p \<in> set (particles s). p_age p' = p_age p + dt \<and> p_age p \<le> p_age p')
             \<or> p_age p' = 0)
           \<and> \<not> p_age p' > p_life p')
     \<and> (\<forall>m' \<in> set (meteors s').
           ((\<exists>m \<in> set (meteors s). m_age m' = m_age m + dt \<and> m_age m \<le> m_age m')
             \<or> m_age m' = dt)
           \<and> \<not> m_age m' > m_life m')
     \<and> (\<forall>L' \<in> set (lightnings s').
           ((\<exists>L \<in> set (lightnings s). l_age L' = l_age L + dt \<and> l_age L \<le> l_age L')
             \<or> l_age L' = dt)
           \<and> \<not> l_age L' > l_life L')"
proof -
  define qs where "qs = map (spec_particle_update dt)
                    (filter (\<lambda>p. \<not> spec_particle_removed dt p) (particles s))"
  have dt0: "0 \<le> dt" using assms(2) by (simp add: dt_def)
  have r: "\<And>k. 0 \<le> rnd s k" using assms(3) by (auto simp: unitSource_def)
  obtain k lms ht ops ms pl ls ps where
    eq: "loop now s =
       Inr (s\<lparr>lastTime := now, rpos := k, lastMeteorSpawn := lms, heroTransform := ht,
              painted := ops,
              meteors := filter (\<lambda>m. \<not> meteorGone s m) (map (advanceMeteor dt) ms),
              meteorPool := pl @ filter (meteorGone s) (rev (map (advanceMeteor dt) ms)),
              lightnings := filter (\<lambda>L. \<not> l_age L > l_life L) (map (ageBolt dt) ls),
              particles := ps\<rparr>)"
    and M: "(ms = meteors s \<and> pl = meteorPool s)
         \<or> (length (meteors s) < maxMeteors
            \<and> (\<exists>m. ms = meteors s @ [m] \<and> pl = butlast (meteorPool s) \<and> meteorSpawn (rnd s) m))"
    and L: "ls = lightnings s
         \<or> (\<exists>L. ls = (if length (lightnings s) \<ge> 6 then tl (lightnings s @ [L])
                       else lightnings s @ [L])
                \<and> l_points L \<noteq> [] \<and> boltSpawn (rnd s) L)"
    and P: "ps = qs
         \<or> (\<exists>p. ps = (if length qs \<ge> maxParticles then tl (qs @ [p]) else qs @ [p])
                \<and> flareSpawn (rnd s) p)"
    using loop_eq [OF assms(1,4,5), of now] unfolding dt_def qs_def by blast
  have Q: "(\<exists>p \<in> set (particles s). p_age q = p_age p + dt \<and> p_age p \<le> p_age q)
            \<and> \<not> p_age q > p_life q" if "q \<in> set qs" for q
    using that dt0 by (auto simp: qs_def spec_particle_update_def spec_particle_removed_def)
  have F: "p_age p = 0 \<and> \<not> p_age p > p_life p" if fs: "flareSpawn (rnd s) p" for p
  proof -
    obtain j where j: "p_age p = 0" "p_life p = scaled (rnd s j) 200 900"
      using fs by (auto simp: flareSpawn_def)
    have "double 200 \<le> scaled (rnd s j) 200 900"
      using r [of j] by (intro scaled_ge) simp_all
    then show ?thesis using j by simp
  qed
  have Pset: "p' \<in> set qs \<or> flareSpawn (rnd s) p'" if "p' \<in> set ps" for p'
    using P that by (auto split: if_splits dest: list.set_sel(2) [rotated])
  have c1: "\<forall>p' \<in> set ps.
           ((\<exists>p \<in> set (particles s). p_age p' = p_age p + dt \<and> p_age p \<le> p_age p')
             \<or> p_age p' = 0)
           \<and> \<not> p_age p' > p_life p'"
    using Pset Q F by blast
  have Mset: "m \<in> set (meteors s) \<or> meteorSpawn (rnd s) m" if "m \<in> set ms" for m
    using M that by auto
  have Mprimed: "m_trail m \<noteq> []" if "m \<in> set ms" for m
    using Mset [OF that] assms(4) by (auto simp: list_all_iff meteorSpawn_def)
  have c2: "\<forall>m' \<in> set (filter (\<lambda>m. \<not> meteorGone s m) (map (advanceMeteor dt) ms)).
           ((\<exists>m \<in> set (meteors s). m_age m' = m_age m + dt \<and> m_age m \<le> m_age m')
             \<or> m_age m' = dt)
           \<and> \<not> m_age m' > m_life m'"
  proof
    fix m' assume "m' \<in> set (filter (\<lambda>m. \<not> meteorGone s m) (map (advanceMeteor dt) ms))"
    then obtain m where m: "m \<in> set ms" "m' = advanceMeteor dt m" "\<not> meteorGone s m'" by auto
    have age: "m_age m' = m_age m + dt"
      using advanceMeteor_primed(4) [OF Mprimed [OF m(1)]] m(2) by simp
    have "\<not> m_age m' > m_life m'" using m(3) by (simp add: meteorGone_def)
    moreover have "(\<exists>m \<in> set (meteors s). m_age m' = m_age m + dt \<and> m_age m \<le> m_age m')
             \<or> m_age m' = dt"
      using Mset [OF m(1)] age dt0 by (auto simp: meteorSpawn_def)
    ultimately show "((\<exists>m \<in> set (meteors s). m_age m' = m_age m + dt \<and> m_age m \<le> m_age m')
             \<or> m_age m' = dt)
           \<and> \<not> m_age m' > m_life m'" by blast
  qed
  have Lset: "L \<in> set (lightnings s) \<or> boltSpawn (rnd s) L" if "L \<in> set ls" for L
    using L that by (auto split: if_splits dest: list.set_sel(2) [rotated])
  have c3: "\<forall>L' \<in> set (filter (\<lambda>L. \<not> l_age L > l_life L) (map (ageBolt dt) ls)).
           ((\<exists>L \<in> set (lightnings s). l_age L' = l_age L + dt \<and> l_age L \<le> l_age L')
             \<or> l_age L' = dt)
           \<and> \<not> l_age L' > l_life L'"
  proof
    fix L' assume "L' \<in> set (filter (\<lambda>L. \<not> l_age L > l_life L) (map (ageBolt dt) ls))"
    then obtain L where L: "L \<in> set ls" "L' = ageBolt dt L" "\<not> l_age L' > l_life L'" by auto
    have age: "l_age L' = l_age L + dt" using L(2) by (simp add: ageBolt_def)
    have "(\<exists>L \<in> set (lightnings s). l_age L' = l_age L + dt \<and> l_age L \<le> l_age L')
             \<or> l_age L' = dt"
      using Lset [OF L(1)] age dt0 by (auto simp: boltSpawn_def)
    then show "((\<exists>L \<in> set (lightnings s). l_age L' = l_age L + dt \<and> l_age L \<le> l_age L')
             \<or> l_age L' = dt)
           \<and> \<not> l_age L' > l_life L'" using L(3) by blast
  qed
  show ?thesis
    unfolding eq using dt0 c1 c2 c3 by simp
qed

theorem ages_advance_witness:
  "running demoScene \<and> lastTime demoScene \<le> 16 \<and> unitSource (rnd demoScene)
   \<and> list_all (\<lambda>m. m_trail m \<noteq> []) (meteors demoScene)
   \<and> list_all (\<lambda>L. l_points L \<noteq> []) (lightnings demoScene)
   \<and> (\<exists>s'. loop 16 demoScene = Inr s'
         \<and> (\<forall>p' \<in> set (particles s'). \<not> p_age p' > p_life p')
         \<and> (\<forall>m' \<in> set (meteors s'). \<not> m_age m' > m_life m')
         \<and> (\<forall>L' \<in> set (lightnings s'). \<not> l_age L' > l_life L'))"
proof -
  have h: "running demoScene" "lastTime demoScene \<le> 16" "unitSource (rnd demoScene)"
    "list_all (\<lambda>m. m_trail m \<noteq> []) (meteors demoScene)"
    "list_all (\<lambda>L. l_points L \<noteq> []) (lightnings demoScene)"
    by (simp_all add: demoScene_def initial_def unitSource_def)
  from ages_advance [OF h] obtain s' where "loop 16 demoScene = Inr s'"
    "\<forall>p' \<in> set (particles s'). \<not> p_age p' > p_life p'"
    "\<forall>m' \<in> set (meteors s'). \<not> m_age m' > m_life m'"
    "\<forall>L' \<in> set (lightnings s'). \<not> l_age L' > l_life L'"
    by blast
  then show ?thesis using h by blast
qed

section \<open>Removal and recycling of meteors\<close>



section \<open>Meteor trails\<close>

text \<open>
  C4. Every session after \<open>init\<close> reaches a scene \<open>s\<close> in which each meteor, live or
  pooled, has at most \<open>maxMeteorTrail = 8\<close> trail points. If the loop is running, the
  next frame at \<open>now\<close> ends without error and has given every meteor live after its
  spawn step the update of the specification: a trail point is appended when the
  squared distance of the new position from the last trail point exceeds 16, the oldest
  point being dropped when that makes nine, and otherwise the last trail point is moved
  to the new position. The meteors are then kept or moved to the pool by the removal
  test.
\<close>

theorem trail_bounded:
  "\<exists>s. run es (init dpr rw rh iw ih t (initial r hero dpr0 t0)) = Inr s
     \<and> maxMeteorTrail = 8
     \<and> list_all (\<lambda>m. length (m_trail m) \<le> maxMeteorTrail) (meteors s @ meteorPool s)
     \<and> (running s \<longrightarrow>
          (\<exists>s'. loop now s = Inr s'
             \<and> meteors s' =
                 filter (\<lambda>m. \<not> meteorGone s m)
                   (map (spec_meteor_update (min (now - lastTime s) 48))
                      (meteors (spawnMeteorTimer now (s\<lparr>lastTime := now\<rparr>))))
             \<and> meteorPool s' =
                 meteorPool (spawnMeteorTimer now (s\<lparr>lastTime := now\<rparr>))
                 @ filter (meteorGone s)
                     (rev (map (spec_meteor_update (min (now - lastTime s) 48))
                        (meteors (spawnMeteorTimer now (s\<lparr>lastTime := now\<rparr>)))))))"
proof -
  define s0 where "s0 = init dpr rw rh iw ih t (initial r hero dpr0 t0)"
  have i: "steady s0" unfolding s0_def by (rule steady_init)
  from steady_run [OF i, of es] obtain s where s: "run es s0 = Inr s" "steady s" by blast
  define dt where "dt = min (now - lastTime s) 48"
  define ms where "ms = meteors (spawnMeteorTimer now (s\<lparr>lastTime := now\<rparr>))"
  define pl where "pl = meteorPool (spawnMeteorTimer now (s\<lparr>lastTime := now\<rparr>))"
  have tr0: "list_all (\<lambda>m. m_trail m \<noteq> []) (meteors s)"
    and pt: "list_all (\<lambda>L. l_points L \<noteq> []) (lightnings s)"
    and b: "list_all (\<lambda>m. length (m_trail m) \<le> maxMeteorTrail) (meteors s @ meteorPool s)"
    using s(2) by (auto simp: steady_def list_all_iff)
  have "\<exists>s'. loop now s = Inr s'
             \<and> meteors s' = filter (\<lambda>m. \<not> meteorGone s m) (map (spec_meteor_update dt) ms)
             \<and> meteorPool s' = pl @ filter (meteorGone s) (rev (map (spec_meteor_update dt) ms))"
    if run: "running s"
  proof -
    obtain k lms ht ops ms' pl' ls ps where
      eq: "loop now s =
         Inr (s\<lparr>lastTime := now, rpos := k, lastMeteorSpawn := lms, heroTransform := ht,
                painted := ops,
                meteors := filter (\<lambda>m. \<not> meteorGone s m) (map (advanceMeteor dt) ms'),
                meteorPool := pl' @ filter (meteorGone s) (rev (map (advanceMeteor dt) ms')),
                lightnings := filter (\<lambda>L. \<not> l_age L > l_life L) (map (ageBolt dt) ls),
                particles := ps\<rparr>)"
      and m: "ms' = ms" "pl' = pl"
      using loop_eq_spawn [OF run tr0 pt, of now] unfolding dt_def ms_def pl_def by blast
    have "list_all (\<lambda>m. m_trail m \<noteq> []) ms"
      unfolding ms_def using tr0 by (intro spawnMeteorTimer_primed) simp
    then have e: "map (advanceMeteor dt) ms = map (spec_meteor_update dt) ms"
      by (rule map_advance_spec)
    show ?thesis unfolding eq m e by simp
  qed
  then show ?thesis using s(1) b unfolding s0_def dt_def ms_def pl_def
    by (simp add: maxMeteorTrail_def)
qed

theorem trail_bounded_witness:
  "running (init 1 800 600 800 600 0 (initial (\<lambda>k. 1 / 2) False 1 0))
   \<and> list_all (\<lambda>m. length (m_trail m) \<le> 8)
       (meteors (init 1 800 600 800 600 0 (initial (\<lambda>k. 1 / 2) False 1 0)))
   \<and> (\<exists>s'. loop 16 (init 1 800 600 800 600 0 (initial (\<lambda>k. 1 / 2) False 1 0)) = Inr s'
          \<and> meteors s' =
                 filter (\<lambda>m. \<not> meteorGone (init 1 800 600 800 600 0 (initial (\<lambda>k. 1 / 2) False 1 0)) m)
                   (map (spec_meteor_update 16)
                      (meteors (spawnMeteorTimer 16
                         ((init 1 800 600 800 600 0 (initial (\<lambda>k. 1 / 2) False 1 0))\<lparr>lastTime := 16\<rparr>)))))"
proof -
  have r: "running (init 1 800 600 800 600 0 (initial (\<lambda>k. 1 / 2) False 1 0))"
    by (rule init_running)
  from trail_bounded [of "[]" 1 800 600 800 600 0 "\<lambda>k. 1 / 2" False 1 0 16] r
  show ?thesis by (simp add: init_lastTime maxMeteorTrail_def) blast
qed

section \<open>The big bang\<close>

text \<open>
  C5. With \<open>Math.random()\<close> a binary64 number of the unit interval, \<open>triggerBigBang\<close> at
  time \<open>t\<close> sets \<open>bigBangTime\<close> to \<open>t\<close> and replaces the particles, whatever they were, by
  exactly \<open>min maxParticles 140 = 140\<close> new ones. The particle of index \<open>i\<close> is made
  from the six draws \<open>u 0\<close>, ..., \<open>u 5\<close> that follow the first \<open>6 * i\<close> ones: it sits at
  the centre \<open>(cx, cy)\<close>, has age 0, the life \<open>rand(700, 1400)\<close> of \<open>u 2\<close>, which is
  between 700 and 1400, and the velocity of speed \<open>rand(80, 480)\<close> of \<open>u 1\<close>, between 80
  and 480, times the time scale, in the direction of the angle \<open>u 0 * 2 * pi\<close>, which
  is in the half-open interval from 0 to \<open>2 * pi\<close>; its hue is \<open>randInt(20, 60)\<close> of
  \<open>u 4\<close>, between 20 and 60.
\<close>

theorem big_bang:
  assumes "doubleSource (rnd s)"
  shows "bigBangTime (triggerBigBang t t2 s) = Some t
       \<and> length (particles (triggerBigBang t t2 s)) = min maxParticles 140
       \<and> min maxParticles 140 = 140
       \<and> (\<forall>i<140.
            let u = (\<lambda>j. rnd s (rpos s + 6 * i + j));
                angle = u 0 * pi * 2;
                speed = scaled (u 1) 80 480;
                life = scaled (u 2) 700 1400;
                hue = \<lfloor>scaled (u 4) 20 61\<rfloor>
            in particles (triggerBigBang t t2 s) ! i =
                 \<lparr>p_x = cx s, p_y = cy s,
                  p_vx = cos angle * speed * timeScale, p_vy = sin angle * speed * timeScale,
                  p_life = life, p_age = 0, p_size = u 3 * (25 / 10) + 6 / 10,
                  p_color = (hue, \<lfloor>scaled (u 5) 50 71\<rfloor>)\<rparr>
               \<and> 0 \<le> angle \<and> angle < 2 * pi \<and> 80 \<le> speed \<and> speed \<le> 480
               \<and> 700 \<le> life \<and> life \<le> 1400 \<and> 20 \<le> hue \<and> hue \<le> 60)"
proof -
  have r: "0 \<le> rnd s k" "rnd s k < 1" "rnd s k \<le> 1" "rnd s k \<le> 1 - 1 / 2 ^ 53" for k
    using assms doubleSource_unit [OF assms] by (auto simp: doubleSource_def unitSource_def less_imp_le)
  have "let u = (\<lambda>j. rnd s (rpos s + 6 * i + j));
                angle = u 0 * pi * 2;
                speed = scaled (u 1) 80 480;
                life = scaled (u 2) 700 1400;
                hue = \<lfloor>scaled (u 4) 20 61\<rfloor>
            in particles (triggerBigBang t t2 s) ! i =
                 \<lparr>p_x = cx s, p_y = cy s,
                  p_vx = cos angle * speed * timeScale, p_vy = sin angle * speed * timeScale,
                  p_life = life, p_age = 0, p_size = u 3 * (25 / 10) + 6 / 10,
                  p_color = (hue, \<lfloor>scaled (u 5) 50 71\<rfloor>)\<rparr>
               \<and> 0 \<le> angle \<and> angle < 2 * pi \<and> 80 \<le> speed \<and> speed \<le> 480
               \<and> 700 \<le> life \<and> life \<le> 1400 \<and> 20 \<le> hue \<and> hue \<le> 60"
    if i: "i < 140" for i
  proof -
    define k where "k = rpos s + 6 * i"
    have nth: "particles (triggerBigBang t t2 s) ! i = fst (newBurstParticle (s\<lparr>rpos := k\<rparr>))"
      using i by (simp add: triggerBigBang_eq k_def del: upt_Suc)
    have sp: "80 \<le> scaled (rnd s (k + 1)) 80 480 \<and> scaled (rnd s (k + 1)) 80 480 \<le> 480"
      using r(1,3) [of "k + 1"] by (intro scaled_range) simp_all
    have li: "700 \<le> scaled (rnd s (k + 2)) 700 1400 \<and> scaled (rnd s (k + 2)) 700 1400 \<le> 1400"
      using r(1,3) [of "k + 2"] by (intro scaled_range) simp_all
    have hu: "20 \<le> \<lfloor>scaled (rnd s (k + 4)) 20 61\<rfloor> \<and> \<lfloor>scaled (rnd s (k + 4)) 20 61\<rfloor> \<le> 60"
      using r(1,4) [of "k + 4"] by (intro hue_range)
    have an: "0 \<le> rnd s k * pi * 2" "rnd s k * pi * 2 < 2 * pi"
      using r(1,2) [of k] by simp_all
    show ?thesis
      unfolding Let_def k_def [symmetric] nth newBurstParticle_fst
      using sp li hu an by simp
  qed
  then show ?thesis by (simp add: triggerBigBang_eq maxParticles_def)
qed

theorem big_bang_witness:
  "doubleSource (rnd (initial (\<lambda>k. 1 / 2) False 1 0)) \<and> (0::nat) < 140
   \<and> bigBangTime (triggerBigBang 800 801 (initial (\<lambda>k. 1 / 2) False 1 0)) = Some 800
   \<and> length (particles (triggerBigBang 800 801 (initial (\<lambda>k. 1 / 2) False 1 0))) = 140
   \<and> p_life (particles (triggerBigBang 800 801 (initial (\<lambda>k. 1 / 2) False 1 0)) ! 0) = 1050
   \<and> p_vx (particles (triggerBigBang 800 801 (initial (\<lambda>k. 1 / 2) False 1 0)) ! 0) = - 210"
proof -
  have h: "doubleSource (rnd (initial (\<lambda>k. 1 / 2) False 1 0))"
    by (simp add: doubleSource_def initial_def)
  have v: "scaled (1 / 2) 700 1400 = 1050" "scaled (1 / 2) 80 480 = 280"
    by (simp_all add: scaled_def)
  from big_bang [OF h, of 800 801] show ?thesis
    using h by (simp add: Let_def initial_def v timeScale_def)
qed

section \<open>One frame of the particles\<close>

text \<open>
  C6. For particles of positive life, \<open>drawParticles\<close> with elapsed time \<open>dt\<close> returns
  without error and does to the particle list what the specification says of each
  particle: it removes exactly the particles whose advanced age has reached their
  life, and advances age, velocity and position of the others (the vertical position
  with the velocity already accelerated in this frame). For each of these it paints
  one disc of opacity \<open>1 - age / life\<close> and radius \<open>size * (1 - age / life) + 0.3\<close>,
  from the last particle to the first. Every particle left has an age below its life,
  so its opacity is positive.
\<close>

theorem particle_frame:
  assumes "list_all (\<lambda>p. 0 < p_life p) (particles s)"
  shows "drawParticles dt s =
     Inr (s\<lparr>particles := map (spec_particle_update dt)
                      (filter (\<lambda>p. \<not> spec_particle_removed dt p) (particles s)),
       painted := painted s
         @ map spec_particle_arc
             (rev (map (spec_particle_update dt)
                     (filter (\<lambda>p. \<not> spec_particle_removed dt p) (particles s))))\<rparr>)
     \<and> list_all (\<lambda>p. p_age p < p_life p \<and> 0 < 1 - p_age p / p_life p)
           (map (spec_particle_update dt)
              (filter (\<lambda>p. \<not> spec_particle_removed dt p) (particles s)))"
proof
  show "drawParticles dt s =
     Inr (s\<lparr>particles := map (spec_particle_update dt)
                      (filter (\<lambda>p. \<not> spec_particle_removed dt p) (particles s)),
       painted := painted s
         @ map spec_particle_arc
             (rev (map (spec_particle_update dt)
                     (filter (\<lambda>p. \<not> spec_particle_removed dt p) (particles s))))\<rparr>)"
  proof (cases "particles s = []")
    case True
    then show ?thesis by (simp add: drawParticles_def)
  next
    case False
    then have "drawParticles dt s = drawParticles_from dt (length (particles s)) s"
      by (simp add: drawParticles_def)
    also have "\<dots> = Inr (s\<lparr>particles := map (spec_particle_update dt)
                      (filter (\<lambda>p. \<not> spec_particle_removed dt p)
                         (take (length (particles s)) (particles s)))
                    @ drop (length (particles s)) (particles s),
       painted := painted s
         @ map spec_particle_arc
             (rev (map (spec_particle_update dt)
                     (filter (\<lambda>p. \<not> spec_particle_removed dt p)
                        (take (length (particles s)) (particles s)))))\<rparr>)"
      by (rule drawParticles_from_eq) simp
    finally show ?thesis by simp
  qed
  show "list_all (\<lambda>p. p_age p < p_life p \<and> 0 < 1 - p_age p / p_life p)
           (map (spec_particle_update dt)
              (filter (\<lambda>p. \<not> spec_particle_removed dt p) (particles s)))"
    unfolding list_all_iff
  proof
    fix q
    assume "q \<in> set (map (spec_particle_update dt)
                 (filter (\<lambda>p. \<not> spec_particle_removed dt p) (particles s)))"
    then obtain p where p: "p \<in> set (particles s)" "\<not> spec_particle_removed dt p"
      "q = spec_particle_update dt p" by auto
    have life: "0 < p_life p" using assms p(1) by (simp add: list_all_iff)
    have age: "p_age q < p_life q" "p_life q = p_life p"
      using p(2,3) by (simp_all add: spec_particle_removed_def spec_particle_update_def)
    then have "p_age q / p_life q < 1" using life by simp
    then show "p_age q < p_life q \<and> 0 < 1 - p_age q / p_life q" using age by simp
  qed
qed

theorem particle_frame_witness:
  "list_all (\<lambda>p. 0 < p_life p)
     (particles (demoScene
        \<lparr>particles := [\<lparr>p_x = 0, p_y = 0, p_vx = 100, p_vy = 0, p_life = 1000, p_age = 0,
                         p_size = 2, p_color = (30, 60)\<rparr>,
                       \<lparr>p_x = 5, p_y = 5, p_vx = 0, p_vy = 0, p_life = 1000, p_age = 990,
                         p_size = 1, p_color = (30, 60)\<rparr>]\<rparr>))
   \<and> drawParticles 16 (demoScene
        \<lparr>particles := [\<lparr>p_x = 0, p_y = 0, p_vx = 100, p_vy = 0, p_life = 1000, p_age = 0,
                         p_size = 2, p_color = (30, 60)\<rparr>,
                       \<lparr>p_x = 5, p_y = 5, p_vx = 0, p_vy = 0, p_life = 1000, p_age = 990,
                         p_size = 1, p_color = (30, 60)\<rparr>]\<rparr>)
     = Inr (demoScene
        \<lparr>particles := [\<lparr>p_x = 6 / 5, p_y = 243 / 6250, p_vx = 100, p_vy = 81 / 25,
                         p_life = 1000, p_age = 16, p_size = 2, p_color = (30, 60)\<rparr>],
         painted := [Arc (6 / 5) (243 / 6250) (1134 / 500) (984 / 1000)]\<rparr>)"
  using particle_frame [of "demoScene
        \<lparr>particles := [\<lparr>p_x = 0, p_y = 0, p_vx = 100, p_vy = 0, p_life = 1000, p_age = 0,
                         p_size = 2, p_color = (30, 60)\<rparr>,
                       \<lparr>p_x = 5, p_y = 5, p_vx = 0, p_vy = 0, p_life = 1000, p_age = 990,
                         p_size = 1, p_color = (30, 60)\<rparr>]\<rparr>" 16]
  by (simp add: demoScene_def initial_def spec_particle_update_def spec_particle_removed_def
        spec_particle_arc_def timeScale_def)

section \<open>Stars stay visible\<close>

text \<open>
  C7, as the code has it, for a random source in the unit interval. In script.js,
  whatever frames and resizes came before, a frame on a surface of non-negative size
  leaves every star within \<open>[0, width] x [0, height]\<close> of that surface, also after a
  resize that shrank it, and paints every shape with an opacity between 0 and 1. In
  space.js \<open>init\<close> places every star within the surface as it is then, no later event
  changes the stars, and \<open>drawStars\<close> paints them with an opacity between 0 and 1.
\<close>

theorem stars_visible:
  assumes "unitSource r"
    "0 \<le> pg_width (pg_run pes (pg_init r w0 h0))" "0 \<le> pg_height (pg_run pes (pg_init r w0 h0))"
  shows "list_all (\<lambda>d. 0 \<le> d_x d \<and> d_x d \<le> pg_width (animate (pg_run pes (pg_init r w0 h0)))
                     \<and> 0 \<le> d_y d \<and> d_y d \<le> pg_height (animate (pg_run pes (pg_init r w0 h0))))
           (pg_stars (animate (pg_run pes (pg_init r w0 h0))))
       \<and> list_all (\<lambda>op. 0 \<le> opacity op \<and> opacity op \<le> 1)
           (pg_painted (animate (pg_run pes (pg_init r w0 h0))))
       \<and> list_all (\<lambda>st. 0 \<le> s_x st
                         \<and> s_x st < width (init dpr rw rh iw ih t (initial r hero dpr0 t0))
                         \<and> 0 \<le> s_y st
                         \<and> s_y st < height (init dpr rw rh iw ih t (initial r hero dpr0 t0)))
           (stars (init dpr rw rh iw ih t (initial r hero dpr0 t0)))
       \<and> (\<exists>s. run es (init dpr rw rh iw ih t (initial r hero dpr0 t0)) = Inr s
              \<and> stars s = stars (init dpr rw rh iw ih t (initial r hero dpr0 t0)))
       \<and> list_all (\<lambda>op. 0 \<le> opacity op \<and> opacity op \<le> 1)
           (painted (drawStars now (drawBackground s1)))"
proof -
  define g where "g = pg_run pes (pg_init r w0 h0)"
  have al: "list_all (\<lambda>d. 0 \<le> d_alpha d \<and> d_alpha d \<le> 1) (pg_stars g)"
    unfolding g_def using pg_init_alpha [OF assms(1)] by (rule pg_run_alpha)
  have a: "list_all (\<lambda>d. 0 \<le> d_x d \<and> d_x d \<le> pg_width (animate g)
                     \<and> 0 \<le> d_y d \<and> d_y d \<le> pg_height (animate g))
           (pg_stars (animate g))"
    using assms(2,3) unfolding g_def [symmetric]
    by (simp add: animate_stars list_all_iff driftStar_range)
  obtain ops where ops: "pg_painted (animate g)
      = map (\<lambda>d. Arc (d_x d) (d_y d) (d_r d) (d_alpha d)) (pg_stars g) @ ops"
    "list_all (\<lambda>op. opacity op = 1) ops"
    using animate_painted by blast
  have "list_all (\<lambda>op. 0 \<le> opacity op \<and> opacity op \<le> 1) ops"
    using ops(2) by (rule list_all_weaken) simp
  then have b: "list_all (\<lambda>op. 0 \<le> opacity op \<and> opacity op \<le> 1) (pg_painted (animate g))"
    using al unfolding ops(1) by (auto simp: list_all_iff)
  have c: "list_all (\<lambda>st. 0 \<le> s_x st
                         \<and> s_x st < width (init dpr rw rh iw ih t (initial r hero dpr0 t0))
                         \<and> 0 \<le> s_y st
                         \<and> s_y st < height (init dpr rw rh iw ih t (initial r hero dpr0 t0)))
           (stars (init dpr rw rh iw ih t (initial r hero dpr0 t0)))"
    using assms(1) by (intro init_stars_bounds) (simp add: initial_def)
  have d: "\<exists>s. run es (init dpr rw rh iw ih t (initial r hero dpr0 t0)) = Inr s
              \<and> stars s = stars (init dpr rw rh iw ih t (initial r hero dpr0 t0))"
    using steady_run [OF steady_init(1)] by blast
  have e: "list_all (\<lambda>op. 0 \<le> opacity op \<and> opacity op \<le> 1)
           (painted (drawStars now (drawBackground s1)))"
    by (intro drawStars_opacity) (simp add: drawBackground_def)
  show ?thesis using a b c d e unfolding g_def by blast
qed

theorem stars_visible_witness:
  "unitSource (\<lambda>k. 1 / 2)
   \<and> 0 \<le> pg_width (pg_run [PgFrame, PgResize 100 100] (pg_init (\<lambda>k. 1 / 2) 800 600))
   \<and> 0 \<le> pg_height (pg_run [PgFrame, PgResize 100 100] (pg_init (\<lambda>k. 1 / 2) 800 600))
   \<and> list_all (\<lambda>d. 0 \<le> d_x d \<and> d_x d \<le> 100 \<and> 0 \<le> d_y d \<and> d_y d \<le> 100)
        (pg_stars (animate (pg_run [PgFrame, PgResize 100 100] (pg_init (\<lambda>k. 1 / 2) 800 600))))"
proof -
  have h: "unitSource (\<lambda>k. 1 / 2)"
    "0 \<le> pg_width (pg_run [PgFrame, PgResize 100 100] (pg_init (\<lambda>k. 1 / 2) 800 600))"
    "0 \<le> pg_height (pg_run [PgFrame, PgResize 100 100] (pg_init (\<lambda>k. 1 / 2) 800 600))"
    by (simp_all add: unitSource_def pg_run_def pg_resize_def)
  have w: "pg_width (animate (pg_run [PgFrame, PgResize 100 100] (pg_init (\<lambda>k. 1 / 2) 800 600))) = 100"
    "pg_height (animate (pg_run [PgFrame, PgResize 100 100] (pg_init (\<lambda>k. 1 / 2) 800 600))) = 100"
    by (simp_all add: animate_stars pg_run_def pg_resize_def)
  show ?thesis
    using stars_visible [OF h] h unfolding w by blast
qed

theorem stars_visible_counterexample:
  "\<not> isl (run [Resize 1 100 100 100 100, Frame 16]
            (init 1 800 600 800 600 0 (initial (\<lambda>k. 1 / 2) False 1 0)))
   \<and> width (projr (run [Resize 1 100 100 100 100, Frame 16]
                     (init 1 800 600 800 600 0 (initial (\<lambda>k. 1 / 2) False 1 0)))) = 100
   \<and> s_x (stars (projr (run [Resize 1 100 100 100 100, Frame 16]
                     (init 1 800 600 800 600 0 (initial (\<lambda>k. 1 / 2) False 1 0)))) ! 0) = 400"
proof -
  define s0 where "s0 = init 1 800 600 800 600 0 (initial (\<lambda>k. 1 / 2) False 1 0)"
  define s1 where "s1 = resize 1 100 100 100 100 s0"
  have st: "steady s1" unfolding s1_def s0_def by (simp add: steady_resize steady_init)
  obtain s2 where s2: "loop 16 s1 = Inr s2" "stars s2 = stars s1" "width s2 = width s1"
    using loop_surface [OF st] by blast
  have r: "run [Resize 1 100 100 100 100, Frame 16] s0 = Inr s2"
    using s2(1) by (simp add: s1_def)
  have w: "width s1 = 100" by (simp add: s1_def resize_def Let_def)
  have "stars s1 = stars (initStars (resize 1 800 600 800 600 (initial (\<lambda>k. 1 / 2) False 1 0)))"
    by (simp add: s1_def s0_def steady_resize init_stars)
  then have x: "s_x (stars s1 ! 0) = 400"
    by (simp add: initStars_eq maxStars_def newStar_def random_def resize_def initial_def Let_def
          upt_conv_Cons del: upt_Suc)
  show ?thesis
    unfolding s0_def [symmetric] r using s2 w x by simp
qed

section \<open>Resize\<close>

text \<open>
  C8, as the code has it. \<open>resize\<close> is total. The dimensions it takes are those of the
  canvas rectangle, or the inner size of the window where the rectangle has 0; it sets
  width and height to these dimensions rounded down to whole pixels and then clamped
  to a minimum of 1, sets the centre to half of them, and rebuilds the black hole
  gradient around the centre with positive radii from the smaller of the two. Stars,
  particles, meteors, recycle pool and lightning bolts are left as they are.
\<close>

theorem resize_effect:
  "width (resize dpr rw rh iw ih s) = max 1 (of_int \<lfloor>if rw = 0 then iw else rw\<rfloor>)
   \<and> height (resize dpr rw rh iw ih s) = max 1 (of_int \<lfloor>if rh = 0 then ih else rh\<rfloor>)
   \<and> 1 \<le> width (resize dpr rw rh iw ih s) \<and> 1 \<le> height (resize dpr rw rh iw ih s)
   \<and> cx (resize dpr rw rh iw ih s) = width (resize dpr rw rh iw ih s) / 2
   \<and> cy (resize dpr rw rh iw ih s) = height (resize dpr rw rh iw ih s) / 2
   \<and> blackHoleGradient (resize dpr rw rh iw ih s) =
       Some \<lparr>g_x = cx (resize dpr rw rh iw ih s), g_y = cy (resize dpr rw rh iw ih s),
             g_r0 = min (width (resize dpr rw rh iw ih s)) (height (resize dpr rw rh iw ih s))
                      * (12 / 100) * (6 / 100),
             g_r1 = min (width (resize dpr rw rh iw ih s)) (height (resize dpr rw rh iw ih s))
                      * (12 / 100)\<rparr>
   \<and> 0 < min (width (resize dpr rw rh iw ih s)) (height (resize dpr rw rh iw ih s)) * (12 / 100)
   \<and> stars (resize dpr rw rh iw ih s) = stars s
   \<and> particles (resize dpr rw rh iw ih s) = particles s
   \<and> meteors (resize dpr rw rh iw ih s) = meteors s
   \<and> meteorPool (resize dpr rw rh iw ih s) = meteorPool s
   \<and> lightnings (resize dpr rw rh iw ih s) = lightnings s"
proof -
  define cssW where "cssW = (if rw = 0 then iw else rw)"
  define cssH where "cssH = (if rh = 0 then ih else rh)"
  define w :: real where "w = max 1 (of_int \<lfloor>cssW\<rfloor>)"
  define h :: real where "h = max 1 (of_int \<lfloor>cssH\<rfloor>)"
  have dims: "width (resize dpr rw rh iw ih s) = w" "height (resize dpr rw rh iw ih s) = h"
    "cx (resize dpr rw rh iw ih s) = w / 2" "cy (resize dpr rw rh iw ih s) = h / 2"
    by (simp_all add: resize_def Let_def w_def h_def cssW_def cssH_def)
  have pos: "1 \<le> w" "1 \<le> h" by (simp_all add: w_def h_def)
  then have rad: "0 < min w h * (12 / 100)" by simp
  have grad: "blackHoleGradient (resize dpr rw rh iw ih s) =
       Some \<lparr>g_x = w / 2, g_y = h / 2, g_r0 = min w h * (12 / 100) * (6 / 100),
             g_r1 = min w h * (12 / 100)\<rparr>"
    by (simp add: resize_def createBlackHoleGradient_def Let_def w_def h_def cssW_def cssH_def)
  have pools: "stars (resize dpr rw rh iw ih s) = stars s"
    "particles (resize dpr rw rh iw ih s) = particles s"
    "meteors (resize dpr rw rh iw ih s) = meteors s"
    "meteorPool (resize dpr rw rh iw ih s) = meteorPool s"
    "lightnings (resize dpr rw rh iw ih s) = lightnings s"
    by (simp_all add: resize_def Let_def)
  show ?thesis
    unfolding dims grad pools using pos rad
    by (simp add: w_def h_def cssW_def cssH_def)
qed

theorem resize_effect_witness:
  "width (resize 2 0 0 1024 768 demoScene) = 1024 \<and> height (resize 2 0 0 1024 768 demoScene) = 768
   \<and> cx (resize 2 0 0 1024 768 demoScene) = 512 \<and> meteors (resize 2 0 0 1024 768 demoScene) = meteors demoScene"
  using resize_effect [of 2 0 0 1024 768 demoScene] by simp

theorem resize_effect_counterexample:
  "width (resize 1 (1601 / 2) 600 1024 768 demoScene) = 800
   \<and> (800 :: real) \<noteq> max 1 (1601 / 2)"
  by (simp add: resize_def Let_def)

section \<open>Trails and lightning paths are never empty when read\<close>

text \<open>
  C9, where the code departs from it. \<open>randInt(4, 8)\<close> is
  \<open>Math.floor(Math.random() * 5 + 4)\<close>; when \<open>Math.random()\<close> returns \<open>1 - 2\<^sup>-\<^sup>5\<^sup>2\<close>, a
  binary64 number below 1, the product rounds to \<open>5 - 2\<^sup>-\<^sup>5\<^sup>0\<close> and the sum to 9. So
  whenever the fourth draw of \<open>spawnLightning\<close> is that number, the bolt it appends has
  9 segments and 10 points.
\<close>

theorem lightning_ten_points:
  assumes "rnd s (rpos s + 3) = 1 - 1 / 2 ^ 52"
  shows "fst (randInt 4 8 (s\<lparr>rpos := rpos s + 3\<rparr>)) = 9
       \<and> lightnings (spawnLightning s) \<noteq> []
       \<and> length (l_points (last (lightnings (spawnLightning s)))) = 10"
proof -
  have a: "rnd s (Suc (Suc (Suc (rpos s)))) = 1 - 1 / 2 ^ 52"
    using assms by (simp add: eval_nat_numeral)
  have sc: "scaled (rnd s (Suc (Suc (Suc (rpos s))))) 4 9 = 9"
    by (simp only: a scaled_edge)
  have "fst (randInt 4 8 (s\<lparr>rpos := rpos s + 3\<rparr>)) = \<lfloor>scaled (rnd s (rpos s + 3)) 4 9\<rfloor>"
    by (simp add: randInt_eq)
  also have "\<dots> = 9" by (simp only: assms scaled_edge) simp
  finally have nine: "fst (randInt 4 8 (s\<lparr>rpos := rpos s + 3\<rparr>)) = 9" .
  define startX where "startX = scaled (rnd s (rpos s)) 0 (width s)"
  define startY where "startY = scaled (rnd s (Suc (rpos s))) 0 (height s / 5)"
  define endY where "endY = scaled (rnd s (Suc (Suc (rpos s)))) (height s / 5) (height s * 4 / 5)"
  define s4 where "s4 = s\<lparr>rpos := Suc (Suc (Suc (Suc (rpos s))))\<rparr>"
  obtain k ps where
    lp: "spawnLightning_loop (nat 9) ((endY - startY) / of_int 9)
           startX startY [\<lparr>pt_x = startX, pt_y = startY\<rparr>] s4
         = ([\<lparr>pt_x = startX, pt_y = startY\<rparr>] @ ps, s4\<lparr>rpos := k\<rparr>)"
    and len: "length ps = nat 9"
    using spawnLightning_loop_eq by blast
  define L where "L = \<lparr>l_points = \<lparr>pt_x = startX, pt_y = startY\<rparr> # ps, l_age = 0,
                       l_life = scaled (rnd s k) 120 260, l_alpha = 1\<rparr>"
  have e: "spawnLightning s = s\<lparr>rpos := Suc k,
         lightnings := (if length (lightnings s) \<ge> 6 then tl (lightnings s @ [L])
                        else lightnings s @ [L])\<rparr>"
    using lp
    by (simp add: spawnLightning_def rand_eq randInt_eq Let_def startX_def startY_def endY_def
          s4_def L_def sc)
  have "lightnings (spawnLightning s) =
          (if length (lightnings s) \<ge> 6 then tl (lightnings s @ [L]) else lightnings s @ [L])"
    unfolding e by simp
  then have "last (lightnings (spawnLightning s)) = L"
    by (simp only: last_capped)
  moreover have "length (l_points L) = 10" by (simp add: L_def len)
  moreover have "lightnings (spawnLightning s) \<noteq> []"
    unfolding e by (cases "lightnings s") simp_all
  ultimately show ?thesis using nine by simp
qed

theorem lightning_ten_points_witness:
  "doubleSource (\<lambda>k. 1 - 1 / 2 ^ 52)
   \<and> rnd (initial (\<lambda>k. 1 - 1 / 2 ^ 52) False 1 0) (rpos (initial (\<lambda>k. 1 - 1 / 2 ^ 52) False 1 0) + 3)
       = 1 - 1 / 2 ^ 52
   \<and> fst (randInt 4 8 ((initial (\<lambda>k. 1 - 1 / 2 ^ 52) False 1 0)\<lparr>rpos := 3\<rparr>)) = 9
   \<and> length (l_points (last (lightnings (spawnLightning (initial (\<lambda>k. 1 - 1 / 2 ^ 52) False 1 0))))) = 10"
proof -
  have h: "rnd (initial (\<lambda>k. 1 - 1 / 2 ^ 52) False 1 0)
             (rpos (initial (\<lambda>k. 1 - 1 / 2 ^ 52) False 1 0) + 3) = 1 - 1 / 2 ^ 52"
    by (simp add: initial_def)
  have d: "doubleSource (\<lambda>k. 1 - 1 / 2 ^ 52)" by (simp add: doubleSource_def)
  have z: "rpos (initial (\<lambda>k. 1 - 1 / 2 ^ 52) False 1 0) = 0" by (simp add: initial_def)
  from lightning_ten_points [OF h] show ?thesis using h d unfolding z by simp
qed


section \<open>Determinism\<close>

text \<open>
  C10, as the code has it. The frame update reads the timestamp itself, for the meteor
  timer, the flare window and the hero shake, and not only the elapsed time, clamped to
  48, that it hands to the draw functions; so the clamped elapsed times do not fix the
  result. The timestamps do: take two scenes that are alike, with the same random source
  at the same position, and give both the same events with the same timestamps. Then
  both runs end in a \<open>TypeError\<close>, or both end in scenes that are alike again: the
  positions and velocities of all stars, particles, meteors and bolts are the same
  after every frame, whatever the two scenes had painted and whatever their pixel
  ratio, canvas size, gradient and hero transform were.
\<close>

theorem frames_deterministic:
  assumes "alike s s'"
  shows "(\<exists>a b. run es s = Inr a \<and> run es s' = Inr b \<and> alike a b)
       \<or> (run es s = Inl TypeError \<and> run es s' = Inl TypeError)"
proof (cases "run es s")
  case (Inl e)
  then have "run es s' = Inl e"
    using alike_run [OF assms, of es] by (cases "run es s'") simp_all
  moreover have "e = TypeError" by (cases e) simp
  ultimately show ?thesis using Inl by simp
next
  case (Inr a)
  then obtain b where "run es s' = Inr b" "alike a b"
    using alike_run [OF assms, of es] by (cases "run es s'") simp_all
  then show ?thesis using Inr by simp
qed

theorem frames_deterministic_witness:
  "alike (init 1 800 600 800 600 0 (initial (\<lambda>k. 1 / 2) False 1 0))
         ((init 1 800 600 800 600 0 (initial (\<lambda>k. 1 / 2) False 1 0))
            \<lparr>DPR := 2, painted := [Rect 0 0 800 600]\<rparr>)
   \<and> (\<exists>a b. run [Frame 16, Frame 32] (init 1 800 600 800 600 0 (initial (\<lambda>k. 1 / 2) False 1 0)) = Inr a
          \<and> run [Frame 16, Frame 32]
                ((init 1 800 600 800 600 0 (initial (\<lambda>k. 1 / 2) False 1 0))
                   \<lparr>DPR := 2, painted := [Rect 0 0 800 600]\<rparr>) = Inr b
          \<and> meteors a = meteors b \<and> particles a = particles b \<and> lightnings a = lightnings b)"
proof -
  define S where "S = init 1 800 600 800 600 0 (initial (\<lambda>k. 1 / 2) False 1 0)"
  have h: "alike S (S\<lparr>DPR := 2, painted := [Rect 0 0 800 600]\<rparr>)" by (simp add: alike_def)
  have "steady S" unfolding S_def by (rule steady_init)
  from steady_run [OF this, of "[Frame 16, Frame 32]"]
  obtain a where a: "run [Frame 16, Frame 32] S = Inr a" by blast
  from frames_deterministic [OF h, of "[Frame 16, Frame 32]"] a
  have "\<exists>a b. run [Frame 16, Frame 32] S = Inr a
          \<and> run [Frame 16, Frame 32] (S\<lparr>DPR := 2, painted := [Rect 0 0 800 600]\<rparr>) = Inr b
          \<and> meteors a = meteors b \<and> particles a = particles b \<and> lightnings a = lightnings b"
    by (auto simp: alike_def)
  then show ?thesis using h unfolding S_def by blast
qed

theorem frames_deterministic_counterexample:
  "min (100 - lastTime (init 1 800 600 800 600 0 (initial (\<lambda>k. 1 / 2) False 1 0))) 48
     = min (2000 - lastTime (init 1 800 600 800 600 0 (initial (\<lambda>k. 1 / 2) False 1 0))) 48
   \<and> \<not> isl (loop 100 (init 1 800 600 800 600 0 (initial (\<lambda>k. 1 / 2) False 1 0)))
   \<and> \<not> isl (loop 2000 (init 1 800 600 800 600 0 (initial (\<lambda>k. 1 / 2) False 1 0)))
   \<and> length (meteors (projr (loop 100 (init 1 800 600 800 600 0 (initial (\<lambda>k. 1 / 2) False 1 0)))))
     + length (meteorPool (projr (loop 100 (init 1 800 600 800 600 0 (initial (\<lambda>k. 1 / 2) False 1 0))))) = 2
   \<and> length (meteors (projr (loop 2000 (init 1 800 600 800 600 0 (initial (\<lambda>k. 1 / 2) False 1 0)))))
     + length (meteorPool (projr (loop 2000 (init 1 800 600 800 600 0 (initial (\<lambda>k. 1 / 2) False 1 0))))) = 3"
proof -
  define S where "S = init 1 800 600 800 600 0 (initial (\<lambda>k. 1 / 2) False 1 0)"
  have st: "steady S" "rnd S = (\<lambda>k. 1 / 2)" unfolding S_def by (rule steady_init)+
  have ru: "running S" unfolding S_def by (rule init_running)
  have f: "length (meteors S) = 2" "meteorPool S = []" "lastMeteorSpawn S = 0"
    unfolding S_def by (rule init_meteors)+
  have lt: "lastTime S = 0" unfolding S_def by (rule init_lastTime)
  have v: "scaled (1 / 2) 200 meteorSpawnInterval = 500"
    by (simp add: scaled_def meteorSpawnInterval_def)
  have a: "spawnMeteorTimer 100 (S\<lparr>lastTime := 100\<rparr>) = S\<lparr>lastTime := 100, rpos := Suc (rpos S)\<rparr>"
    by (simp add: spawnMeteorTimer_unf st(2) f v)
  have l: "length (meteors (S\<lparr>lastTime := 2000, rpos := Suc (rpos S)\<rparr>)) < maxMeteors"
    by (simp add: f maxMeteors_def)
  have b: "spawnMeteorTimer 2000 (S\<lparr>lastTime := 2000\<rparr>)
         = (createMeteor (S\<lparr>lastTime := 2000, rpos := Suc (rpos S)\<rparr>))\<lparr>lastMeteorSpawn := 2000\<rparr>"
    by (simp add: spawnMeteorTimer_unf st(2) f v)
  have c1: "length (meteors (projr (loop 100 S))) + length (meteorPool (projr (loop 100 S))) = 2"
    unfolding loop_census(2) [OF ru st(1)] a by (simp add: f)
  have c2: "length (meteors (projr (loop 2000 S))) + length (meteorPool (projr (loop 2000 S))) = 3"
    unfolding loop_census(2) [OF ru st(1)] b
    by (simp add: createMeteor_clock(2,3) [OF l] f)
  show ?thesis
    unfolding S_def [symmetric]
    using c1 c2 loop_census(1) [OF ru st(1)] by (simp add: lt)
qed


end
